theory Spec2Isabelle
  imports Main
begin

section \<open>Strings of the host language\<close>

text \<open>
  A JavaScript string is a sequence of UTF-16 code units. A code unit is modelled as a
  natural number (below 65536), a string as the list of its code units, so that
  \<open>length\<close> is the source's \<open>.length\<close> and \<open>take n\<close> is \<open>.substring(0, n)\<close>.
  \<open>S\<close> turns an ASCII literal into such a string; characters outside ASCII are written
  by their code units.
\<close>

type_synonym jsstring = "nat list"

definition S :: "string \<Rightarrow> jsstring" where
  "S s = map of_char s"

section \<open>src/visual.ts: the Data Context Extractor\<close>

text \<open>
  The host's view, as far as \<open>processDataView\<close> reads it: a column has
  \<open>source.displayName\<close>, \<open>source.isMeasure\<close> (read for its truthiness) and
  \<open>values\<close>; \<open>categorical.categories\<close> and \<open>categorical.values\<close> may be missing
  (\<open>|| []\<close>), and so may \<open>categorical\<close> and the view itself (\<open>dataView?.categorical\<close>).
  The type \<open>'v\<close> is the host's primitive value.
\<close>

record 'v column =
  displayName :: jsstring
  isMeasure :: bool
  col_values :: "'v list"

record 'v categorical =
  categories :: "'v column list option"
  cat_values :: "'v column list option"

record 'v dataView =
  categorical :: "'v categorical option"

text \<open>
  A sample row is the object built by the assignments \<open>row[name] = col.values[i]\<close>:
  a map from field names to cells. A cell is \<open>None\<close> where the source reads past the
  end of a column (\<open>undefined\<close>).
\<close>

type_synonym 'v row = "jsstring \<rightharpoonup> 'v option"

record column_info =
  ci_name :: jsstring
  ci_type :: jsstring

record 'v DataContext =
  hasData :: bool
  rowCount :: nat
  columns :: "column_info list"
  sampleData :: "'v row list"

definition nth_opt :: "'a list \<Rightarrow> nat \<Rightarrow> 'a option" where
  "nth_opt xs i = (if i < length xs then Some (xs ! i) else None)"

definition empty_context :: "'v DataContext" where
  "empty_context = \<lparr>hasData = False, rowCount = 0, columns = [], sampleData = []\<rparr>"

definition or_empty :: "'a list option \<Rightarrow> 'a list" where
  "or_empty xs = (case xs of None \<Rightarrow> [] | Some ys \<Rightarrow> ys)"

definition column_entry :: "'v column \<Rightarrow> column_info" where
  "column_entry col =
     \<lparr>ci_name = displayName col,
      ci_type = (if isMeasure col then S ''medida'' else S ''categoria'')\<rparr>"

definition sample_row :: "'v column list \<Rightarrow> nat \<Rightarrow> 'v row" where
  "sample_row allColumns i =
     fold (\<lambda>col row. row(displayName col \<mapsto> nth_opt (col_values col) i)) allColumns Map.empty"

definition allColumns :: "'v categorical \<Rightarrow> 'v column list" where
  "allColumns cat = or_empty (categories cat) @ or_empty (cat_values cat)"

definition processDataView :: "'v dataView option \<Rightarrow> 'v DataContext" where
  "processDataView dataView =
     (case dataView of
        None \<Rightarrow> empty_context
      | Some dv \<Rightarrow>
          (case categorical dv of
             None \<Rightarrow> empty_context
           | Some cat \<Rightarrow>
               (if length (allColumns cat) = 0 then empty_context
                else
                  (let rowCount = (case allColumns cat of [] \<Rightarrow> 0 | c # _ \<Rightarrow> length (col_values c));
                       sampleSize = min rowCount 10
                   in \<lparr>hasData = True,
                       rowCount = rowCount,
                       columns = map column_entry (allColumns cat),
                       sampleData = map (sample_row (allColumns cat)) [0..<sampleSize]\<rparr>))))"

text \<open>A host view with one category column and two measure columns of twelve rows each.\<close>

definition view3x12 :: "nat categorical" where
  "view3x12 =
     \<lparr>categories = Some [\<lparr>displayName = S ''Medico'', isMeasure = False, col_values = [1..<13]\<rparr>],
      cat_values = Some [\<lparr>displayName = S ''Vendas'', isMeasure = True, col_values = [101..<113]\<rparr>,
                         \<lparr>displayName = S ''Qtd'', isMeasure = True, col_values = [201..<213]\<rparr>]\<rparr>"

section \<open>netlify/functions/storage-bridge.js: the Ephemeral Result Store\<close>

text \<open>
  What a handler returns: the status code and the body. Bodies are kept as the value the
  source passes to \<open>JSON.stringify\<close>, not as its serialisation.
\<close>

record 'b http_response =
  statusCode :: nat
  body :: 'b










text \<open>
  The passage of time: the clock moves on by \<open>d\<close> milliseconds and every clean-up timer
  that is due by then runs its \<open>responses.delete(sessionId)\<close>.
\<close>

definition due :: "nat \<Rightarrow> (nat \<times> jsstring) list \<Rightarrow> (nat \<times> jsstring) list" where
  "due t ts = filter (\<lambda>(at, sid). at \<le> t) ts"









section \<open>src/visual.ts: the Transport Adapters\<close>

text \<open>
  What a Backend Proxy hands back to an adapter: an object of which the adapters read
  \<open>error\<close>, for its truthiness (and, in the hidden frame, as the text of the failure),
  and \<open>answer\<close>, a string that may be missing. \<open>Missing\<close> stands for \<open>undefined\<close> and
  \<open>null\<close>.
\<close>

datatype jsflag = Missing | Flag bool | Text jsstring

fun truthy :: "jsflag \<Rightarrow> bool" where
  "truthy Missing = False"
| "truthy (Flag b) = b"
| "truthy (Text s) = (s \<noteq> [])"

fun error_text :: "jsflag \<Rightarrow> jsstring" where
  "error_text Missing = []"
| "error_text (Flag b) = (if b then S ''true'' else S ''false'')"
| "error_text (Text s) = s"

record payload =
  p_error :: jsflag
  p_answer :: "jsstring option"

text \<open>\<open>or_default a d\<close> is the source's \<open>a || d\<close> for a string \<open>a\<close> that may be missing.\<close>

definition or_default :: "jsstring option \<Rightarrow> jsstring \<Rightarrow> jsstring" where
  "or_default a d = (case a of None \<Rightarrow> d | Some s \<Rightarrow> if s = [] then d else s)"

text \<open>
  An adapter's promise settles with \<open>Inr answer\<close> (resolved) or \<open>Inl message\<close> (rejected with
  \<open>new Error(message)\<close>), at some time after it was started, in milliseconds.
\<close>

type_synonym outcome = "jsstring + jsstring"

text \<open>
  What the outside world does to a pending adapter: a response arrives after some time,
  the load or the connection fails after some time, or nothing happens at all.
\<close>

datatype 'd signal = Message nat 'd | Broken nat | Nothing

text \<open>One poll of the pixel adapter: the fetch fails, nothing is stored yet, or an entry is found.\<close>

datatype poll = PollFailed | NotYet | Ready payload

text \<open>
  The parameters every adapter sends (\<open>question\<close>, \<open>hasData\<close>, \<open>rowCount\<close>, the sample),
  and the world: for every transport, what comes back for a request. The server-push
  message is \<open>None\<close> when \<open>JSON.parse\<close> rejects it; the pixel transport is given by the
  latency and result of its \<open>k\<close>-th poll.
\<close>

record 'v params =
  q_question :: jsstring
  q_hasData :: bool
  q_rowCount :: nat
  q_context :: "'v row list"

record 'v world =
  w_jsonp :: "'v params \<Rightarrow> payload signal"
  w_iframe :: "'v params \<Rightarrow> payload signal"
  w_sse :: "'v params \<Rightarrow> payload option signal"
  w_pixel :: "'v params \<Rightarrow> nat \<Rightarrow> nat \<times> poll"

definition ADAPTER_TIMEOUT :: nat where
  "ADAPTER_TIMEOUT = 15000"

definition sendViaJSONP :: "'v world \<Rightarrow> 'v params \<Rightarrow> nat \<times> outcome" where
  "sendViaJSONP w p =
     (case w_jsonp w p of
        Message t d \<Rightarrow>
          (if t < ADAPTER_TIMEOUT then
             (t, if truthy (p_error d) then Inl (or_default (p_answer d) (S ''Erro JSONP''))
                 else Inr (or_default (p_answer d) (S ''Resposta JSONP recebida'')))
           else (ADAPTER_TIMEOUT, Inl (S ''JSONP timeout ap'' @ [243] @ S ''s 15 segundos'')))
      | Broken t \<Rightarrow>
          (if t < ADAPTER_TIMEOUT then (t, Inl (S ''Erro ao carregar script JSONP''))
           else (ADAPTER_TIMEOUT, Inl (S ''JSONP timeout ap'' @ [243] @ S ''s 15 segundos'')))
      | Nothing \<Rightarrow> (ADAPTER_TIMEOUT, Inl (S ''JSONP timeout ap'' @ [243] @ S ''s 15 segundos'')))"

definition sendViaIframe :: "'v world \<Rightarrow> 'v params \<Rightarrow> nat \<times> outcome" where
  "sendViaIframe w p =
     (case w_iframe w p of
        Message t d \<Rightarrow>
          (if t < ADAPTER_TIMEOUT then
             (t, if truthy (p_error d) then Inl (error_text (p_error d))
                 else Inr (or_default (p_answer d) (S ''Resposta iframe recebida'')))
           else (ADAPTER_TIMEOUT, Inl (S ''Iframe timeout ap'' @ [243] @ S ''s 15 segundos'')))
      | Broken t \<Rightarrow>
          (if t < ADAPTER_TIMEOUT then (t, Inl (S ''Erro ao carregar iframe''))
           else (ADAPTER_TIMEOUT, Inl (S ''Iframe timeout ap'' @ [243] @ S ''s 15 segundos'')))
      | Nothing \<Rightarrow> (ADAPTER_TIMEOUT, Inl (S ''Iframe timeout ap'' @ [243] @ S ''s 15 segundos'')))"

definition sendViaSSE :: "'v world \<Rightarrow> 'v params \<Rightarrow> nat \<times> outcome" where
  "sendViaSSE w p =
     (case w_sse w p of
        Message t (Some d) \<Rightarrow>
          (if t < ADAPTER_TIMEOUT then
             (t, if truthy (p_error d) then Inl (or_default (p_answer d) (S ''Erro SSE''))
                 else Inr (or_default (p_answer d) (S ''Resposta SSE recebida'')))
           else (ADAPTER_TIMEOUT, Inl (S ''SSE timeout ap'' @ [243] @ S ''s 15 segundos'')))
      | Message t None \<Rightarrow>
          (if t < ADAPTER_TIMEOUT then (t, Inl (S ''Erro ao parsear resposta SSE''))
           else (ADAPTER_TIMEOUT, Inl (S ''SSE timeout ap'' @ [243] @ S ''s 15 segundos'')))
      | Broken t \<Rightarrow>
          (if t < ADAPTER_TIMEOUT then (t, Inl (S ''Erro de conex'' @ [227] @ S ''o SSE''))
           else (ADAPTER_TIMEOUT, Inl (S ''SSE timeout ap'' @ [243] @ S ''s 15 segundos'')))
      | Nothing \<Rightarrow> (ADAPTER_TIMEOUT, Inl (S ''SSE timeout ap'' @ [243] @ S ''s 15 segundos'')))"

text \<open>
  The pixel adapter's \<open>checkResponse\<close>: \<open>attempts\<close> counts the checks made so far, \<open>t\<close> is
  the time at which this check starts. A check that finds nothing, or whose fetch fails,
  schedules the next one a second after it ends.
\<close>

definition maxAttempts :: nat where
  "maxAttempts = 15"

function checkResponse :: "(nat \<Rightarrow> nat \<times> poll) \<Rightarrow> nat \<Rightarrow> nat \<Rightarrow> nat \<times> outcome" where
  "checkResponse polls attempts t =
     (if Suc attempts > maxAttempts then (t, Inl (S ''Pixel timeout ap'' @ [243] @ S ''s 15 segundos''))
      else
        (case polls (Suc attempts) of
           (latency, Ready d) \<Rightarrow>
             (t + latency,
              if truthy (p_error d) then Inl (or_default (p_answer d) (S ''Erro pixel''))
              else Inr (or_default (p_answer d) (S ''Resposta pixel recebida'')))
         | (latency, NotYet) \<Rightarrow> checkResponse polls (Suc attempts) (t + latency + 1000)
         | (latency, PollFailed) \<Rightarrow> checkResponse polls (Suc attempts) (t + latency + 1000)))"
  by pat_completeness auto
termination
  by (relation "measure (\<lambda>(polls, attempts, t). Suc maxAttempts - attempts)") auto

definition sendViaPixel :: "'v world \<Rightarrow> 'v params \<Rightarrow> nat \<times> outcome" where
  "sendViaPixel w p = checkResponse (w_pixel w p) 0 2000"

section \<open>src/visual.ts: the Fallback Controller\<close>

datatype transport = JSONP | Iframe | SSE | Pixel

definition invoke :: "transport \<Rightarrow> 'v world \<Rightarrow> 'v params \<Rightarrow> nat \<times> outcome" where
  "invoke f w p =
     (case f of
        JSONP \<Rightarrow> sendViaJSONP w p
      | Iframe \<Rightarrow> sendViaIframe w p
      | SSE \<Rightarrow> sendViaSSE w p
      | Pixel \<Rightarrow> sendViaPixel w p)"

record CommunicationMethod =
  name :: jsstring
  func :: transport
  priority :: int
  enabled :: bool

text \<open>
  The widget's state, as far as the controller touches it: the methods (an element of
  \<open>enabledMethods\<close> is a reference to one of them, modelled by its index), the cached
  context, the last used method, the texts written to the status element, the pending
  timers that re-enable a method (the time at which each fires and the method's index),
  and a simulated clock in milliseconds.
\<close>

record 'v visual =
  communicationMethods :: "CommunicationMethod list"
  dataContext :: "'v DataContext"
  lastUsedMethod :: jsstring
  methodStatus :: "jsstring list"
  reenable :: "(nat \<times> nat) list"
  now :: nat

definition initializeCommunicationMethods :: "CommunicationMethod list" where
  "initializeCommunicationMethods =
     [\<lparr>name = S ''JSONP'', func = JSONP, priority = 1, enabled = True\<rparr>,
      \<lparr>name = S ''Iframe'', func = Iframe, priority = 2, enabled = True\<rparr>,
      \<lparr>name = S ''SSE'', func = SSE, priority = 3, enabled = True\<rparr>,
      \<lparr>name = S ''Pixel'', func = Pixel, priority = 4, enabled = True\<rparr>]"

definition new_visual :: "'v visual" where
  "new_visual =
     \<lparr>communicationMethods = initializeCommunicationMethods,
      dataContext = empty_context,
      lastUsedMethod = [],
      methodStatus = [],
      reenable = [],
      now = 0\<rparr>"

definition RACE_TIMEOUT :: nat where
  "RACE_TIMEOUT = 16000"

definition COOLDOWN :: nat where
  "COOLDOWN = 30000"

text \<open>\<open>Promise.race\<close> of the adapter's promise against the 16 s timer.\<close>

definition race :: "nat \<times> outcome \<Rightarrow> nat \<times> outcome" where
  "race r = (if fst r < RACE_TIMEOUT then r else (RACE_TIMEOUT, Inl (S ''Timeout geral'')))"

text \<open>
  Time passing while the controller awaits: the clock moves on by \<open>d\<close> and every
  re-enabling timer due by then sets its method's \<open>enabled\<close> to \<open>true\<close>.
\<close>

definition set_enabled :: "bool \<Rightarrow> nat \<Rightarrow> CommunicationMethod list \<Rightarrow> CommunicationMethod list" where
  "set_enabled b i ms = (if i < length ms then ms[i := (ms ! i)\<lparr>enabled := b\<rparr>] else ms)"

definition await :: "nat \<Rightarrow> 'v visual \<Rightarrow> 'v visual" where
  "await d st =
     st\<lparr>communicationMethods :=
          fold (\<lambda>(at, i) ms. set_enabled True i ms)
            (filter (\<lambda>(at, i). at \<le> now st + d) (reenable st)) (communicationMethods st),
        reenable := filter (\<lambda>(at, i). \<not> at \<le> now st + d) (reenable st),
        now := now st + d\<rparr>"

text \<open>The \<open>catch\<close> branch: the method is disabled and its re-enabling is scheduled.\<close>

definition on_failure :: "nat \<Rightarrow> 'v visual \<Rightarrow> 'v visual" where
  "on_failure i st =
     st\<lparr>communicationMethods := set_enabled False i (communicationMethods st),
        reenable := reenable st @ [(now st + COOLDOWN, i)]\<rparr>"

definition updateMethodStatus :: "jsstring \<Rightarrow> 'v visual \<Rightarrow> 'v visual" where
  "updateMethodStatus status st = st\<lparr>methodStatus := methodStatus st @ [status]\<rparr>"

definition enabledMethods :: "'v visual \<Rightarrow> nat list" where
  "enabledMethods st =
     sort_key (\<lambda>i. priority (communicationMethods st ! i))
       (filter (\<lambda>i. enabled (communicationMethods st ! i)) [0..<length (communicationMethods st)])"

definition request_of :: "jsstring \<Rightarrow> 'v visual \<Rightarrow> 'v params" where
  "request_of question st =
     \<lparr>q_question = question,
      q_hasData = hasData (dataContext st),
      q_rowCount = rowCount (dataContext st),
      q_context = sampleData (dataContext st)\<rparr>"

definition exhausted :: "jsstring option \<Rightarrow> jsstring" where
  "exhausted lastError =
     S ''Comunica'' @ [231, 227] @ S ''o falhou. '' @ [218] @ S ''ltimo erro: ''
       @ (case lastError of None \<Rightarrow> S ''undefined'' | Some message \<Rightarrow> message)"

text \<open>The status texts \<open>Tentando ...\<close> of method \<open>i\<close> and of total failure.\<close>

definition trying :: "'v visual \<Rightarrow> nat \<Rightarrow> jsstring" where
  "trying st i = S ''Tentando '' @ name (communicationMethods st ! i) @ S ''...''"

definition all_failed :: jsstring where
  "all_failed = [10060] @ S '' Todos os m'' @ [233] @ S ''todos falharam''"

text \<open>The \<open>for\<close> loop over \<open>enabledMethods\<close>, with \<open>lastError\<close> as it stands.\<close>

fun try_methods ::
  "'v world \<Rightarrow> jsstring \<Rightarrow> nat list \<Rightarrow> jsstring option \<Rightarrow> 'v visual \<Rightarrow> outcome \<times> 'v visual" where
  "try_methods w question [] lastError st =
     (Inl (exhausted lastError),
      updateMethodStatus all_failed st)"
| "try_methods w question (i # rest) lastError st =
     (let method = communicationMethods st ! i;
          st1 = updateMethodStatus (trying st i) st;
          (d, result) = race (invoke (func method) w (request_of question st1));
          st2 = await d st1
      in case result of
           Inr answer \<Rightarrow>
             (Inr answer,
              updateMethodStatus ([9989] @ S '' Conectado via '' @ name method)
                (st2\<lparr>lastUsedMethod := name method\<rparr>))
         | Inl message \<Rightarrow> try_methods w question rest (Some message) (on_failure i st2))"

definition sendMessageWithFallback :: "'v world \<Rightarrow> jsstring \<Rightarrow> 'v visual \<Rightarrow> outcome \<times> 'v visual" where
  "sendMessageWithFallback w question st = try_methods w question (enabledMethods st) None st"

text \<open>
  What the attempt on method \<open>i\<close> comes to: the adapter's outcome after the race. It
  depends on the method's \<open>func\<close> and on the cached context only.
\<close>

definition attempt :: "'v world \<Rightarrow> jsstring \<Rightarrow> 'v visual \<Rightarrow> nat \<Rightarrow> outcome" where
  "attempt w question st i =
     snd (race (invoke (func (communicationMethods st ! i)) w (request_of question st)))"

text \<open>
  How long the attempt on method \<open>i\<close> takes: until the adapter's promise settles or the
  16 s timer of the race fires.
\<close>

definition duration :: "'v world \<Rightarrow> jsstring \<Rightarrow> 'v visual \<Rightarrow> nat \<Rightarrow> nat" where
  "duration w question st i =
     fst (race (invoke (func (communicationMethods st ! i)) w (request_of question st)))"

text \<open>A world in which no transport ever answers, and one in which only the hidden frame does.\<close>

definition silent_world :: "nat world" where
  "silent_world =
     \<lparr>w_jsonp = (\<lambda>p. Nothing), w_iframe = (\<lambda>p. Nothing), w_sse = (\<lambda>p. Nothing),
      w_pixel = (\<lambda>p k. (0, NotYet))\<rparr>"

definition frame_world :: "nat world" where
  "frame_world =
     \<lparr>w_jsonp = (\<lambda>p. Broken 40),
      w_iframe = (\<lambda>p. Message 900 \<lparr>p_error = Missing, p_answer = Some (S ''42'')\<rparr>),
      w_sse = (\<lambda>p. Nothing),
      w_pixel = (\<lambda>p k. (0, NotYet))\<rparr>"

text \<open>A widget all of whose methods are cooling down.\<close>

definition idle_visual :: "nat visual" where
  "idle_visual =
     new_visual\<lparr>communicationMethods := map (\<lambda>m. m\<lparr>enabled := False\<rparr>) initializeCommunicationMethods,
       reenable := [(30000, 0), (30000, 1), (30000, 2), (30000, 3)]\<rparr>"

text \<open>
  What can happen to the widget after a failure, within the same call and in later ones:
  time passes while a promise is awaited, and the \<open>catch\<close> branch runs for some method.
\<close>

datatype tick = Wait nat | Fails nat

fun pass :: "'v visual \<Rightarrow> tick list \<Rightarrow> 'v visual" where
  "pass st [] = st"
| "pass st (Wait d # ts) = pass (await d st) ts"
| "pass st (Fails j # ts) = pass (on_failure j st) ts"

fun elapsed :: "tick list \<Rightarrow> nat" where
  "elapsed [] = 0"
| "elapsed (Wait d # ts) = d + elapsed ts"
| "elapsed (Fails j # ts) = elapsed ts"

fun fails :: "nat \<Rightarrow> tick \<Rightarrow> bool" where
  "fails i (Fails j) = (i = j)"
| "fails i (Wait d) = False"

text \<open>The ticks of one run of the loop over \<open>enabledMethods\<close>.\<close>

fun call_ticks :: "'v world \<Rightarrow> jsstring \<Rightarrow> 'v visual \<Rightarrow> nat list \<Rightarrow> tick list" where
  "call_ticks w question st [] = []"
| "call_ticks w question st (i # rest) =
     Wait (fst (race (invoke (func (communicationMethods st ! i)) w (request_of question st))))
       # (case attempt w question st i of
            Inr answer \<Rightarrow> []
          | Inl message \<Rightarrow> Fails i # call_ticks w question st rest)"

text \<open>
  No re-enabling of method \<open>i\<close> is pending; and the two phases of a cool-down that ends at
  time \<open>t\<close>: before \<open>t\<close> the method is disabled and its one pending timer is the one for
  \<open>t\<close>, from \<open>t\<close> on it is enabled and no timer is pending for it.
\<close>

definition idle :: "nat \<Rightarrow> 'v visual \<Rightarrow> bool" where
  "idle i st = (i \<notin> snd ` set (reenable st))"

definition cooling :: "nat \<Rightarrow> nat \<Rightarrow> 'v visual \<Rightarrow> bool" where
  "cooling t i st =
     (i < length (communicationMethods st)
      \<and> (now st < t \<longrightarrow>
            \<not> enabled (communicationMethods st ! i)
            \<and> (t, i) \<in> set (reenable st)
            \<and> (\<forall>at. (at, i) \<in> set (reenable st) \<longrightarrow> t \<le> at \<and> at \<le> t))
      \<and> (t \<le> now st \<longrightarrow> enabled (communicationMethods st ! i) \<and> idle i st))"

text \<open>
  The states the widget can be in: every pending timer belongs to a method that is
  disabled now, and no method has two.
\<close>

definition timers_ok :: "'v visual \<Rightarrow> bool" where
  "timers_ok st =
     (distinct (map snd (reenable st))
      \<and> list_all (\<lambda>(at, j). j < length (communicationMethods st)
                              \<and> \<not> enabled (communicationMethods st ! j)) (reenable st))"

text \<open>Two states agree on what the cool-down depends on: the methods, the timers and the clock.\<close>

definition same_timing :: "'v visual \<Rightarrow> 'v visual \<Rightarrow> bool" where
  "same_timing st st' =
     (communicationMethods st = communicationMethods st'
      \<and> reenable st = reenable st' \<and> now st = now st')"

section \<open>netlify/functions: values and platform functions\<close>

text \<open>
  A function that may throw returns \<open>Inl message\<close> for a thrown error with that
  \<open>message\<close>, and \<open>Inr value\<close> otherwise.
\<close>

type_synonym 'a result = "jsstring + 'a"

definition after :: "'a result \<Rightarrow> ('a \<Rightarrow> 'b result) \<Rightarrow> 'b result" where
  "after r f = (case r of Inl e \<Rightarrow> Inl e | Inr x \<Rightarrow> f x)"

text \<open>
  What \<open>JSON.parse\<close> yields. A number is kept as the text \<open>String\<close> gives for it, the
  only thing the functions below do with a number of the context; an object as its
  properties in enumeration order.
\<close>

datatype json =
    JNull
  | JBool bool
  | JNum jsstring
  | JStr jsstring
  | JArr "json list"
  | JObj "(jsstring \<times> json) list"

text \<open>
  The functions of the runtime that the source calls and that are not part of the
  repository. \<open>parseInt\<close> gives the text of the number parsed (\<open>NaN\<close> included), and
  \<open>JSON_stringify_indent\<close> is \<open>JSON.stringify(value, null, 2)\<close>.
\<close>

record platform =
  toLowerCase :: "jsstring \<Rightarrow> jsstring"
  decodeURIComponent :: "jsstring \<Rightarrow> jsstring result"
  JSON_parse :: "jsstring \<Rightarrow> json result"
  JSON_stringify :: "json \<Rightarrow> jsstring"
  JSON_stringify_indent :: "json \<Rightarrow> jsstring"
  parseInt :: "jsstring \<Rightarrow> jsstring"

text \<open>\<open>str_includes h n\<close> is \<open>h.includes(n)\<close>; \<open>join sep xs\<close> is \<open>xs.join(sep)\<close> for strings.\<close>

fun starts_with :: "'a list \<Rightarrow> 'a list \<Rightarrow> bool" where
  "starts_with h [] = True"
| "starts_with [] (y # n) = False"
| "starts_with (x # h) (y # n) = (x = y \<and> starts_with h n)"

fun str_includes :: "'a list \<Rightarrow> 'a list \<Rightarrow> bool" where
  "str_includes [] n = (n = [])"
| "str_includes (x # h) n = (starts_with (x # h) n \<or> str_includes h n)"

fun join :: "jsstring \<Rightarrow> jsstring list \<Rightarrow> jsstring" where
  "join sep [] = []"
| "join sep [x] = x"
| "join sep (x # y # ys) = x @ sep @ join sep (y # ys)"

text \<open>The decimal text of a natural number, as \<open>String\<close> gives it for a length or an index.\<close>

function show_nat :: "nat \<Rightarrow> jsstring" where
  "show_nat n = (if n < 10 then [48 + n] else show_nat (n div 10) @ [48 + n mod 10])"
  by pat_completeness auto
termination
  by (relation "measure id") auto

definition isArray :: "json \<Rightarrow> bool" where
  "isArray v = (case v of JArr xs \<Rightarrow> True | _ \<Rightarrow> False)"

definition elements :: "json \<Rightarrow> json list" where
  "elements v = (case v of JArr xs \<Rightarrow> xs | _ \<Rightarrow> [])"

text \<open>\<open>hasData\<close> as three of the generators compute it: a non-empty array.\<close>

definition nonempty_array :: "json \<Rightarrow> bool" where
  "nonempty_array v = (isArray v \<and> length (elements v) > 0)"

fun falsy :: "json \<Rightarrow> bool" where
  "falsy JNull = True"
| "falsy (JBool b) = (\<not> b)"
| "falsy (JNum s) = (s = S ''0'')"
| "falsy (JStr s) = (s = [])"
| "falsy (JArr xs) = False"
| "falsy (JObj kvs) = False"

text \<open>\<open>v || {}\<close>\<close>

definition or_object :: "json \<Rightarrow> json" where
  "or_object v = (if falsy v then JObj [] else v)"

definition null_to_object :: jsstring where
  "null_to_object = S ''Cannot convert undefined or null to object''"

definition indices :: "nat \<Rightarrow> jsstring list" where
  "indices n = map show_nat [0..<n]"

fun object_entries :: "json \<Rightarrow> (jsstring \<times> json) list result" where
  "object_entries JNull = Inl null_to_object"
| "object_entries (JBool b) = Inr []"
| "object_entries (JNum s) = Inr []"
| "object_entries (JStr s) = Inr (zip (indices (length s)) (map (\<lambda>c. JStr [c]) s))"
| "object_entries (JArr xs) = Inr (zip (indices (length xs)) xs)"
| "object_entries (JObj kvs) = Inr kvs"

definition object_keys :: "json \<Rightarrow> jsstring list result" where
  "object_keys v = after (object_entries v) (\<lambda>es. Inr (map fst es))"

text \<open>The text a template literal interpolates for a value.\<close>

fun to_string :: "json \<Rightarrow> jsstring" where
  "to_string JNull = S ''null''"
| "to_string (JBool b) = (if b then S ''true'' else S ''false'')"
| "to_string (JNum s) = s"
| "to_string (JStr s) = s"
| "to_string (JArr xs) = join (S '','') (map (\<lambda>x. if x = JNull then [] else to_string x) xs)"
| "to_string (JObj kvs) = S ''[object Object]''"

text \<open>
  The query parameters of a request: \<open>event.queryStringParameters\<close>, which may be
  \<open>null\<close>. \<open>param ev k\<close> is \<open>params[k]\<close> with \<open>params = event.queryStringParameters || {}\<close>,
  and \<open>param_or ev k d\<close> is \<open>params[k] || d\<close>.
\<close>

record http_event =
  httpMethod :: jsstring
  queryStringParameters :: "(jsstring \<rightharpoonup> jsstring) option"

definition param :: "http_event \<Rightarrow> jsstring \<Rightarrow> jsstring option" where
  "param ev k = (case queryStringParameters ev of None \<Rightarrow> None | Some ps \<Rightarrow> ps k)"

definition param_or :: "http_event \<Rightarrow> jsstring \<Rightarrow> jsstring \<Rightarrow> jsstring" where
  "param_or ev k d = or_default (param ev k) d"

section \<open>netlify/functions: the conversational backend\<close>

text \<open>
  A call to the backend ends after some milliseconds with a network error, or with a
  response: its status and its body, as \<open>response.json()\<close> gives it (which may throw).
\<close>

datatype 'a fetched = NetworkError nat jsstring | Response nat nat "'a result"

record activity =
  a_type :: jsstring
  a_from :: jsstring
  a_text :: "jsstring option"

record conversation =
  conversationId :: jsstring
  token :: jsstring

text \<open>
  The backend: opening a conversation with a secret, posting a message from a sender,
  and the \<open>k\<close>-th reading of the activities after a message was posted.
\<close>

record directline =
  start_conversation :: "jsstring \<Rightarrow> conversation fetched"
  post_activity :: "conversation \<Rightarrow> jsstring \<Rightarrow> jsstring \<Rightarrow> unit fetched"
  get_activities :: "conversation \<Rightarrow> jsstring \<Rightarrow> nat \<Rightarrow> activity list fetched"

text \<open>
  The process: \<open>process.env.COPILOT_SECRET\<close>, the backend, and the time the event loop
  takes from the start of the main chat handler until its race is armed.
\<close>

record process =
  COPILOT_SECRET :: "jsstring option"
  backend :: directline
  lag :: nat

definition network_timeout :: jsstring where
  "network_timeout = S ''network timeout''"

text \<open>
  \<open>fetch\<close>, with node-fetch's optional \<open>timeout\<close>: the time it takes, and the error thrown
  or the status and body received.
\<close>

definition fetch :: "nat option \<Rightarrow> 'a fetched \<Rightarrow> nat \<times> (nat \<times> 'a result) result" where
  "fetch limit r =
     (case limit of
        None \<Rightarrow>
          (case r of
             NetworkError l m \<Rightarrow> (l, Inl m)
           | Response l st b \<Rightarrow> (l, Inr (st, b)))
      | Some t \<Rightarrow>
          (case r of
             NetworkError l m \<Rightarrow> if l < t then (l, Inl m) else (t, Inl network_timeout)
           | Response l st b \<Rightarrow> if l < t then (l, Inr (st, b)) else (t, Inl network_timeout)))"

definition ok :: "nat \<Rightarrow> bool" where
  "ok st = (200 \<le> st \<and> st < 300)"

definition botMessages :: "jsstring \<Rightarrow> activity list \<Rightarrow> activity list" where
  "botMessages user activities =
     filter (\<lambda>a. a_type a = S ''message'' \<and> a_from a \<noteq> user) activities"

text \<open>
  The polling loop shared by the endpoints: \<open>remaining\<close> readings are left, the next is
  the \<open>k\<close>-th, and \<open>t\<close> is the time so far. Each reading comes after \<open>interval\<close>
  milliseconds. \<open>guarded\<close> tells whether the reading stands in a \<open>try\<close> whose \<open>catch\<close>
  goes on to the next one (main chat endpoint) or not. The result is \<open>None\<close> when the
  loop ends without a reply.
\<close>

fun polling ::
  "bool \<Rightarrow> nat option \<Rightarrow> nat \<Rightarrow> jsstring \<Rightarrow> (nat \<Rightarrow> activity list fetched)
     \<Rightarrow> nat \<Rightarrow> nat \<Rightarrow> nat \<Rightarrow> nat \<times> (jsstring option) result option" where
  "polling guarded limit interval user reading 0 k t = (t, None)"
| "polling guarded limit interval user reading (Suc remaining) k t =
     (case fetch limit (reading k) of
        (l, Inl m) \<Rightarrow>
          if guarded then polling guarded limit interval user reading remaining (Suc k) (t + interval + l)
          else (t + interval + l, Some (Inl m))
      | (l, Inr (st, b)) \<Rightarrow>
          if ok st then
            (case b of
               Inl m \<Rightarrow>
                 if guarded then polling guarded limit interval user reading remaining (Suc k) (t + interval + l)
                 else (t + interval + l, Some (Inl m))
             | Inr activities \<Rightarrow>
                 if length (botMessages user activities) > 0
                 then (t + interval + l, Some (Inr (a_text (last (botMessages user activities)))))
                 else polling guarded limit interval user reading remaining (Suc k) (t + interval + l))
          else polling guarded limit interval user reading remaining (Suc k) (t + interval + l))"

text \<open>
  What an exchange with the backend comes to: when its promise settles, with what (an
  error thrown, or the reply's \<open>text\<close>, which may be missing), and the messages handed to
  the backend.
\<close>

record exchange =
  settled_at :: nat
  settled :: "(jsstring option) result"
  forwarded :: "jsstring list"

definition secret_missing :: jsstring where
  "secret_missing = S ''COPILOT_SECRET n'' @ [227] @ S ''o configurada''"

section \<open>netlify/functions/chat-jsonp.js\<close>

text \<open>
  The body the proxies answer with, as far as the adapters and the claims read it:
  \<open>answer\<close> (left out by \<open>JSON.stringify\<close> when \<open>undefined\<close>), \<open>error\<close> and \<open>method\<close>. The
  clock readings of the body (\<open>executionTime\<close>, \<open>timestamp\<close>) are not modelled.
\<close>

record proxy_body = payload +
  p_method :: jsstring

definition prepareQuickMessage :: "platform \<Rightarrow> jsstring \<Rightarrow> json \<Rightarrow> jsstring result" where
  "prepareQuickMessage pf question ctx =
     (if \<not> isArray ctx \<or> length (elements ctx) = 0 then
        Inr (S ''RESPOSTA R'' @ [193] @ S ''PIDA: '' @ [34] @ question @ [34] @ S '' - Sem dados Power BI.'')
      else
        after (object_keys (elements ctx ! 0)) (\<lambda>keys.
          Inr (S ''AN'' @ [193] @ S ''LISE R'' @ [193] @ S ''PIDA Power BI:'' @ [10] @ S ''Pergunta: '' @ [34]
               @ question
               @ [34, 10] @ S ''Dados: '' @ show_nat (length (elements ctx))
               @ S '' registros'' @ [10] @ S ''Colunas: '' @ join (S '', '') (take 3 keys)
               @ [10] @ S ''Exemplo: '' @ JSON_stringify pf (elements ctx ! 0)
               @ [10] @ S ''RESPONDA DE FORMA CONCISA.'')))"

definition sendToCopilotFast :: "platform \<Rightarrow> process \<Rightarrow> jsstring \<Rightarrow> json \<Rightarrow> exchange" where
  "sendToCopilotFast pf env question ctx =
     (case COPILOT_SECRET env of
        None \<Rightarrow> \<lparr>settled_at = 0, settled = Inl secret_missing, forwarded = []\<rparr>
      | Some directLineSecret \<Rightarrow>
          if directLineSecret = [] then \<lparr>settled_at = 0, settled = Inl secret_missing, forwarded = []\<rparr>
          else
            (case fetch None (start_conversation (backend env) directLineSecret) of
               (t1, Inl m) \<Rightarrow> \<lparr>settled_at = t1, settled = Inl m, forwarded = []\<rparr>
             | (t1, Inr (st, b)) \<Rightarrow>
                 if \<not> ok st then
                   \<lparr>settled_at = t1, settled = Inl (S ''JSONP Conversa falhou: '' @ show_nat st), forwarded = []\<rparr>
                 else
                   (case b of
                      Inl m \<Rightarrow> \<lparr>settled_at = t1, settled = Inl m, forwarded = []\<rparr>
                    | Inr conv \<Rightarrow>
                        (case prepareQuickMessage pf question ctx of
                           Inl m \<Rightarrow> \<lparr>settled_at = t1, settled = Inl m, forwarded = []\<rparr>
                         | Inr message \<Rightarrow>
                             (case fetch None (post_activity (backend env) conv (S ''PowerBI_JSONP_User'') message) of
                                (t2, Inl m) \<Rightarrow>
                                  \<lparr>settled_at = t1 + t2, settled = Inl m, forwarded = [message]\<rparr>
                              | (t2, Inr posted) \<Rightarrow>
                                  (case polling False None 1200 (S ''PowerBI_JSONP_User'')
                                          (get_activities (backend env) conv message) 3 1 (t1 + t2) of
                                     (t3, None) \<Rightarrow>
                                       \<lparr>settled_at = t3, settled = Inl (S ''JSONP Polling timeout''),
                                        forwarded = [message]\<rparr>
                                   | (t3, Some r) \<Rightarrow>
                                       \<lparr>settled_at = t3, settled = r, forwarded = [message]\<rparr>))))))"

text \<open>The four answers of \<open>generateSmartFallback\<close>, by bucket.\<close>

definition smart_totals :: "jsstring \<Rightarrow> json \<Rightarrow> bool \<Rightarrow> jsstring \<Rightarrow> jsstring result" where
  "smart_totals question ctx has_data row_count =
     after
       (if has_data \<and> isArray ctx \<and> length (elements ctx) > 0 then
          after (object_keys (elements ctx ! 0)) (\<lambda>keys.
            Inr ([55357, 56523] @ S '' **Dados dispon'' @ [237] @ S ''veis:** '' @ join (S '', '') keys))
        else Inr ([9888, 65039] @ S '' Configure dados no visual Power BI''))
       (\<lambda>tail.
          Inr ([55357, 56522] @ S '' **AN'' @ [193] @ S ''LISE DE TOTAIS via JSONP**'' @ [10] @ S ''    ''
               @ [10, 9989] @ S '' **Status:** ''
               @ (if has_data then row_count @ S '' registros processados''
                  else S ''Nenhum dado dispon'' @ [237] @ S ''vel'')
               @ [10, 55357, 56589] @ S '' **Pergunta:** '' @ question
               @ [10, 55357, 56481] @ S '' **Sugest'' @ [227] @ S ''o:** ''
               @ (if has_data then S ''Use SUM() nas colunas num'' @ [233] @ S ''ricas para calcular totais''
                  else S ''Adicione dados num'' @ [233] @ S ''ricos ao visual'')
               @ [10, 10] @ tail))"

definition smart_doctors :: "platform \<Rightarrow> jsstring \<Rightarrow> json \<Rightarrow> bool \<Rightarrow> jsstring \<Rightarrow> jsstring" where
  "smart_doctors pf question ctx has_data row_count =
     [55357, 56424, 8205, 9877, 65039] @ S '' **AN'' @ [193] @ S ''LISE M'' @ [201] @ S ''DICOS via JSONP**''
       @ [10] @ S ''    '' @ [10, 9989] @ S '' **Registros encontrados:** '' @ row_count
       @ [10, 55357, 56589] @ S '' **Filtro aplicado:** '' @ [34] @ question
       @ [34, 10, 55357, 56522] @ S '' **Status:** ''
       @ (if has_data then S ''Dados carregados'' else S ''Sem dados'')
       @ [10, 10]
       @ (if has_data \<and> isArray ctx \<and> length (elements ctx) > 0 then
            [55357, 56523] @ S '' **Amostra:** '' @ JSON_stringify_indent pf (elements ctx ! 0)
          else [9888, 65039] @ S '' Carregue dados m'' @ [233] @ S ''dicos no visual'')"

definition smart_sales :: "jsstring \<Rightarrow> bool \<Rightarrow> jsstring \<Rightarrow> jsstring" where
  "smart_sales question has_data row_count =
     [55357, 56496] @ S '' **AN'' @ [193] @ S ''LISE DE VENDAS via JSONP**'' @ [10] @ S ''    ''
       @ [10, 55357, 56520] @ S '' **Transa'' @ [231, 245] @ S ''es:** '' @ row_count
       @ S '' registros'' @ [10, 55357, 56501] @ S '' **Status:** ''
       @ (if has_data then S ''Dados processados'' else S ''Sem dados de vendas'')
       @ [10, 55356, 57263] @ S '' **Pergunta:** '' @ question
       @ [10, 10]
       @ (if has_data then [9989] @ S '' Dados prontos para an'' @ [225] @ S ''lise de performance''
          else [9888, 65039] @ S '' Configure dados de vendas no visual'')"

definition smart_generic :: "jsstring \<Rightarrow> json \<Rightarrow> bool \<Rightarrow> jsstring \<Rightarrow> jsstring" where
  "smart_generic question ctx has_data row_count =
     [55357, 56580] @ S '' **JSONP CONECTADO COM SUCESSO!**'' @ [10] @ S ''  ''
       @ [10, 9989] @ S '' **Comunica'' @ [231, 227] @ S ''o:** Ativa via JSONP (bypass CORS)''
       @ [10, 55357, 56589] @ S '' **Pergunta:** '' @ [34] @ question
       @ [34, 10, 55357, 56522] @ S '' **Dados:** ''
       @ (if has_data then row_count @ S '' registros carregados''
          else S ''Nenhum dado dispon'' @ [237] @ S ''vel'')
       @ [10, 9889] @ S '' **M'' @ [233] @ S ''todo:** Fallback inteligente ativo'' @ [10, 10]
       @ (if has_data \<and> isArray ctx \<and> length (elements ctx) > 0 then
            [55357, 56481] @ S '' **Dica:** Dados prontos! Fa'' @ [231] @ S ''a perguntas mais espec'' @ [237]
              @ S ''ficas para an'' @ [225] @ S ''lises detalhadas.''
          else [55357, 56615] @ S '' **A'' @ [231, 227] @ S ''o:** Adicione dados ao visual Power BI para an''
              @ [225] @ S ''lises completas.'')"

definition generateSmartFallback ::
  "platform \<Rightarrow> jsstring \<Rightarrow> json \<Rightarrow> bool \<Rightarrow> jsstring \<Rightarrow> jsstring result" where
  "generateSmartFallback pf question ctx has_data row_count =
     (let q = toLowerCase pf question in
      if str_includes q (S ''total'') \<or> str_includes q (S ''soma'') \<or> str_includes q (S ''sum'')
      then smart_totals question ctx has_data row_count
      else if str_includes q (S ''m'' @ [233] @ S ''dico'') \<or> str_includes q (S ''doctor'')
              \<or> str_includes q (S ''quantidade'')
      then Inr (smart_doctors pf question ctx has_data row_count)
      else if str_includes q (S ''vendas'') \<or> str_includes q (S ''receita'') \<or> str_includes q (S ''sales'')
      then Inr (smart_sales question has_data row_count)
      else Inr (smart_generic question ctx has_data row_count))"

text \<open>
  The handler. Its result is the response (status, the callback's name and the body
  handed to it) and the messages forwarded to the backend.
\<close>

definition jsonp_context :: "platform \<Rightarrow> http_event \<Rightarrow> json" where
  "jsonp_context pf ev =
     (case after (decodeURIComponent pf (param_or ev (S ''context'') (S ''[]''))) (JSON_parse pf) of
        Inl e \<Rightarrow> JArr []
      | Inr v \<Rightarrow> v)"

definition jsonp_question :: "http_event \<Rightarrow> jsstring" where
  "jsonp_question ev = param_or ev (S ''question'') (S ''Pergunta n'' @ [227] @ S ''o informada'')"

definition jsonp_has_data :: "http_event \<Rightarrow> bool" where
  "jsonp_has_data ev = (param ev (S ''hasData'') = Some (S ''true''))"

definition jsonp_row_count :: "platform \<Rightarrow> http_event \<Rightarrow> jsstring" where
  "jsonp_row_count pf ev = parseInt pf (param_or ev (S ''rowCount'') (S ''0''))"

definition jsonp_exchange :: "platform \<Rightarrow> process \<Rightarrow> http_event \<Rightarrow> exchange" where
  "jsonp_exchange pf env ev = sendToCopilotFast pf env (jsonp_question ev) (jsonp_context pf ev)"

text \<open>
  \<open>Promise.race\<close> of an exchange against a timer of \<open>limit\<close> milliseconds, and the case
  that it rejects: the exchange failed, or had not settled in time.
\<close>

definition raced :: "nat \<Rightarrow> exchange \<Rightarrow> (jsstring option) result" where
  "raced limit ex = (if settled_at ex < limit then settled ex else Inl (S ''Copilot timeout''))"

definition gave_up :: "nat \<Rightarrow> exchange \<Rightarrow> bool" where
  "gave_up limit ex = (limit \<le> settled_at ex \<or> isl (settled ex))"

definition chat_jsonp ::
  "platform \<Rightarrow> process \<Rightarrow> http_event \<Rightarrow> (jsstring \<times> proxy_body) http_response \<times> jsstring list" where
  "chat_jsonp pf env ev =
     (let callback = param_or ev (S ''callback'') (S ''callback'');
          question = jsonp_question ev;
          has_data = jsonp_has_data ev;
          row_count = jsonp_row_count pf ev;
          contextData = jsonp_context pf ev;
          copilot = jsonp_exchange pf env ev
      in ((case raced 5000 copilot of
            Inr answer \<Rightarrow>
              \<lparr>statusCode = 200,
               body = (callback, \<lparr>p_error = Missing, p_answer = answer, p_method = S ''JSONP_COPILOT''\<rparr>)\<rparr>
          | Inl copilotError \<Rightarrow>
              (case generateSmartFallback pf question contextData has_data row_count of
                 Inr answer \<Rightarrow>
                   \<lparr>statusCode = 200,
                    body = (callback,
                            \<lparr>p_error = Missing, p_answer = Some answer, p_method = S ''JSONP_FALLBACK''\<rparr>)\<rparr>
               | Inl message \<Rightarrow>
                   \<lparr>statusCode = 200,
                    body = (callback,
                            \<lparr>p_error = Flag True,
                             p_answer = Some ([9888, 65039] @ S '' Erro JSONP: '' @ message
                                              @ S ''. Sistema em modo de recupera'' @ [231, 227] @ S ''o.''),
                             p_method = S ''JSONP_ERROR''\<rparr>)\<rparr>)),
          forwarded copilot))"

section \<open>netlify/functions/chat-sse.js\<close>












section \<open>netlify/functions/chat.js\<close>

definition MAX_EXECUTION_TIME :: nat where
  "MAX_EXECUTION_TIME = 8500"

definition COPILOT_TIMEOUT :: nat where
  "COPILOT_TIMEOUT = 6000"

definition MAX_POLLING_ATTEMPTS :: nat where
  "MAX_POLLING_ATTEMPTS = 3"

definition POLLING_INTERVAL :: nat where
  "POLLING_INTERVAL = 1500"

definition prepareOptimizedMessage :: "platform \<Rightarrow> jsstring \<Rightarrow> json \<Rightarrow> jsstring result" where
  "prepareOptimizedMessage pf question ctx =
     (if \<not> isArray ctx \<or> length (elements ctx) = 0 then
        Inr (S ''Pergunta r'' @ [225] @ S ''pida: '' @ [34] @ question @ [34] @ S '' - Sem dados do Power BI.'')
      else
        after (object_keys (or_object (elements ctx ! 0))) (\<lambda>keys.
          Inr (S ''AN'' @ [193] @ S ''LISE R'' @ [193] @ S ''PIDA:'' @ [10] @ S ''Pergunta: '' @ [34] @ question
               @ [34, 10] @ S ''Dados: '' @ show_nat (length (elements ctx))
               @ S '' registros'' @ [10] @ S ''Colunas: '' @ join (S '', '') (take 5 keys)
               @ [10] @ S ''Amostra: '' @ JSON_stringify pf (or_object (elements ctx ! 0))
               @ [10] @ S ''RESPONDA DE FORMA CONCISA E DIRETA.'')))"

definition sendToCopilotOptimized :: "platform \<Rightarrow> process \<Rightarrow> jsstring \<Rightarrow> json \<Rightarrow> exchange" where
  "sendToCopilotOptimized pf env question ctx =
     (case COPILOT_SECRET env of
        None \<Rightarrow> \<lparr>settled_at = 0, settled = Inl secret_missing, forwarded = []\<rparr>
      | Some directLineSecret \<Rightarrow>
          if directLineSecret = [] then \<lparr>settled_at = 0, settled = Inl secret_missing, forwarded = []\<rparr>
          else
            (case fetch (Some 2000) (start_conversation (backend env) directLineSecret) of
               (t1, Inl m) \<Rightarrow> \<lparr>settled_at = t1, settled = Inl m, forwarded = []\<rparr>
             | (t1, Inr (st, b)) \<Rightarrow>
                 if \<not> ok st then
                   \<lparr>settled_at = t1, settled = Inl (S ''Conversa falhou: '' @ show_nat st), forwarded = []\<rparr>
                 else
                   (case b of
                      Inl m \<Rightarrow> \<lparr>settled_at = t1, settled = Inl m, forwarded = []\<rparr>
                    | Inr conv \<Rightarrow>
                        (case prepareOptimizedMessage pf question ctx of
                           Inl m \<Rightarrow> \<lparr>settled_at = t1, settled = Inl m, forwarded = []\<rparr>
                         | Inr optimizedMessage \<Rightarrow>
                             (case fetch (Some 1500)
                                     (post_activity (backend env) conv (S ''PowerBI_Fast_User'') optimizedMessage) of
                                (t2, Inl m) \<Rightarrow>
                                  \<lparr>settled_at = t1 + t2, settled = Inl m, forwarded = [optimizedMessage]\<rparr>
                              | (t2, Inr posted) \<Rightarrow>
                                  (case polling True (Some 1000) POLLING_INTERVAL (S ''PowerBI_Fast_User'')
                                          (get_activities (backend env) conv optimizedMessage)
                                          MAX_POLLING_ATTEMPTS 1 (t1 + t2) of
                                     (t3, None) \<Rightarrow>
                                       \<lparr>settled_at = t3,
                                        settled = Inl (S ''Polling timeout ap'' @ [243] @ S ''s 3 tentativas''),
                                        forwarded = [optimizedMessage]\<rparr>
                                   | (t3, Some r) \<Rightarrow>
                                       \<lparr>settled_at = t3, settled = r, forwarded = [optimizedMessage]\<rparr>))))))"

text \<open>\<open>generateDataSample\<close>: a line for each of the first two rows, then how many more there are.\<close>

fun sample_lines :: "nat \<Rightarrow> json list \<Rightarrow> jsstring result" where
  "sample_lines index [] = Inr []"
| "sample_lines index (row # rows) =
     after (object_entries row) (\<lambda>es.
       after (sample_lines (Suc index) rows) (\<lambda>rest.
         Inr (S ''**Registro '' @ show_nat (index + 1) @ S '':** ''
              @ join (S '' | '') (map (\<lambda>(key, val). key @ S '': '' @ to_string val) (take 3 es))
              @ [10] @ rest)))"

definition generateDataSample :: "json \<Rightarrow> jsstring result" where
  "generateDataSample ctx =
     (if \<not> isArray ctx \<or> length (elements ctx) = 0 then Inr []
      else
        after (sample_lines 0 (take 2 (elements ctx))) (\<lambda>lines.
          Inr ([10, 55357, 56523] @ S '' **Amostra dos dados:**'' @ [10] @ lines
               @ (if length (elements ctx) > 2
                  then S ''... e mais '' @ show_nat (length (elements ctx) - 2) @ S '' registros''
                  else []))))"

definition questionTypes :: "(jsstring \<times> jsstring list) list" where
  "questionTypes =
     [(S ''totals'', [S ''total'', S ''soma'', S ''sum'', S ''somar'', S ''calcular'']),
      (S ''quantities'', [S ''quantidade'', S ''qtd'', S ''quantos'', S ''count'', S ''n'' @ [250] @ S ''mero'']),
      (S ''sales'', [S ''vendas'', S ''receita'', S ''faturamento'', S ''revenue'', S ''sales'']),
      (S ''doctors'', [S ''m'' @ [233] @ S ''dico'', S ''doctor'', S ''dr.'', S ''dra.'', S ''profissional'']),
      (S ''averages'', [S ''m'' @ [233] @ S ''dia'', S ''average'', S ''mean'', S ''m'' @ [233] @ S ''dio'']),
      (S ''comparisons'', [S ''comparar'', S ''versus'', S ''vs'', S ''diferen'' @ [231] @ S ''a'',
                           S ''maior'', S ''menor''])]"

text \<open>
  The loop over \<open>Object.entries(questionTypes)\<close>: the \<open>responseType\<close> and the \<open>keywords\<close>
  it leaves, which are \<open>general\<close> and none when no type matches. \<open>mentions q terms\<close> is
  \<open>terms.some(term => q.includes(term))\<close>.
\<close>

definition mentions :: "jsstring \<Rightarrow> jsstring list \<Rightarrow> bool" where
  "mentions q terms = list_ex (\<lambda>term. str_includes q term) terms"

fun analyse :: "jsstring \<Rightarrow> (jsstring \<times> jsstring list) list \<Rightarrow> jsstring \<times> jsstring list" where
  "analyse q [] = (S ''general'', [])"
| "analyse q ((type, terms) # rest) =
     (if mentions q terms then (type, filter (\<lambda>term. str_includes q term) terms)
      else analyse q rest)"

text \<open>The answers of the \<open>switch\<close> over \<open>responseType\<close>: three cases and the default.\<close>

definition intelligent_totals :: "json \<Rightarrow> jsstring list \<Rightarrow> jsstring result" where
  "intelligent_totals ctx keywords =
     (if nonempty_array ctx then
        after (generateDataSample ctx) (\<lambda>sample.
          Inr ([55357, 56522] @ S '' **AN'' @ [193] @ S ''LISE DE TOTAIS** ''
               @ [10] @ S ''      '' @ [10, 9989] @ S '' **Dados Processados:** ''
               @ show_nat (length (elements ctx))
               @ S '' registros'' @ [10, 55357, 56589] @ S '' **Palavras-chave:** ''
               @ join (S '', '') keywords
               @ [10, 55357, 56520] @ S '' **Sugest'' @ [227] @ S ''o:** Use a coluna de valores num''
               @ [233] @ S ''ricos para calcular totais'' @ [10, 55356, 57263] @ S '' **Pr'' @ [243]
               @ S ''ximo passo:** Identifique a coluna de valores e aplique SUM()'' @ [10, 10]
               @ sample))
      else Inr ([55357, 56522] @ S '' **AN'' @ [193] @ S ''LISE DE TOTAIS** ''
                @ [9888, 65039] @ S '' Nenhum dado dispon'' @ [237] @ S ''vel para c'' @ [225]
                @ S ''lculo de totais''))"

definition intelligent_doctors :: "json \<Rightarrow> jsstring list \<Rightarrow> jsstring result" where
  "intelligent_doctors ctx keywords =
     (if nonempty_array ctx then
        after (object_keys (elements ctx ! 0)) (\<lambda>keys.
          after (generateDataSample ctx) (\<lambda>sample.
            Inr ([55357, 56424, 8205, 9877, 65039] @ S '' **AN'' @ [193] @ S ''LISE M'' @ [201]
                 @ S ''DICOS** ''
                 @ [10] @ S ''      '' @ [10, 9989] @ S '' **Registros m'' @ [233] @ S ''dicos:** ''
                 @ show_nat (length (elements ctx))
                 @ S '' encontrados'' @ [10, 55357, 56589] @ S '' **Filtros aplicados:** ''
                 @ join (S '', '') keywords
                 @ [10, 55357, 56523] @ S '' **Colunas dispon'' @ [237] @ S ''veis:** ''
                 @ join (S '', '') keys
                 @ [10, 55357, 56481] @ S '' **Insights:** Agrupe por nome do m'' @ [233]
                 @ S ''dico para ver distribui'' @ [231, 227] @ S ''o'' @ [10, 10]
                 @ sample)))
      else Inr ([55357, 56424, 8205, 9877, 65039] @ S '' **AN'' @ [193] @ S ''LISE M'' @ [201]
                @ S ''DICOS** ''
                @ [9888, 65039] @ S '' Dados m'' @ [233] @ S ''dicos n'' @ [227]
                @ S ''o carregados no visual''))"

definition intelligent_sales :: "json \<Rightarrow> jsstring result" where
  "intelligent_sales ctx =
     (if nonempty_array ctx then
        after (generateDataSample ctx) (\<lambda>sample.
          Inr ([55357, 56496] @ S '' **AN'' @ [193] @ S ''LISE DE VENDAS** ''
               @ [10] @ S ''      '' @ [10, 55357, 56522] @ S '' **Transa'' @ [231, 245] @ S ''es:** ''
               @ show_nat (length (elements ctx))
               @ S '' registros de vendas'' @ [10, 55357, 56501] @ S '' **M'' @ [233]
               @ S ''tricas:** Receita, quantidade, performance'' @ [10, 55357, 56520] @ S '' **Per''
               @ [237] @ S ''odo:** Baseado nos dados carregados'' @ [10, 55356, 57263]
               @ S '' **Recomenda'' @ [231, 227] @ S ''o:** Visualize por per'' @ [237]
               @ S ''odo ou vendedor'' @ [10, 10]
               @ sample))
      else Inr ([55357, 56496] @ S '' **AN'' @ [193] @ S ''LISE DE VENDAS** ''
                @ [9888, 65039] @ S '' Carregue dados de vendas no visual''))"

definition intelligent_general :: "jsstring \<Rightarrow> json \<Rightarrow> jsstring result" where
  "intelligent_general question ctx =
     (if nonempty_array ctx then
        after (object_keys (or_object (elements ctx ! 0))) (\<lambda>keys.
          after (generateDataSample ctx) (\<lambda>sample.
            Inr ([55358, 56598] @ S '' **ASSISTENTE BI ATIVO** ''
                 @ [10] @ S ''      '' @ [10, 9989] @ S '' **Status:** ''
                 @ show_nat (length (elements ctx))
                 @ S '' registros processados'' @ [10, 55357, 56589] @ S '' **Pergunta:** '' @ [34]
                 @ take 100 question
                 @ S ''...'' @ [34, 10, 55357, 56522] @ S '' **Dados:** '' @ show_nat (length keys)
                 @ S '' colunas dispon'' @ [237] @ S ''veis'' @ [10, 9889] @ S '' **Modo:** Resposta r''
                 @ [225] @ S ''pida (otimizado para Netlify Free)'' @ [10, 10]
                 @ sample
                 @ [10, 10, 55357, 56481] @ S '' **Dica:** Seja mais espec'' @ [237]
                 @ S ''fico para an'' @ [225] @ S ''lises detalhadas'')))
      else Inr ([55358, 56598] @ S '' **ASSISTENTE BI ATIVO** ''
                @ [9888, 65039] @ S '' Nenhum dado carregado no visual''))"

definition generateIntelligentFallback :: "platform \<Rightarrow> jsstring \<Rightarrow> json \<Rightarrow> jsstring result" where
  "generateIntelligentFallback pf question ctx =
     (let q = toLowerCase pf question;
          (responseType, keywords) = analyse q questionTypes
      in if responseType = S ''totals'' then intelligent_totals ctx keywords
         else if responseType = S ''doctors'' then intelligent_doctors ctx keywords
         else if responseType = S ''sales'' then intelligent_sales ctx
         else intelligent_general question ctx)"





text \<open>
  The handler. Its result is the response (the body is \<open>None\<close> for the empty body of
  the \<open>OPTIONS\<close> answer), the messages forwarded to the backend, and whether the timer
  \<open>globalTimeout\<close> fired. A timer fires only when the event loop turns: the handler
  reaches \<open>clearTimeout(globalTimeout)\<close> within its first turn on every path but the one
  that awaits a race against a backend that was called (\<open>has_secret\<close>); there the timer
  fires when \<open>MAX_EXECUTION_TIME\<close> has passed by the time the race is over.
  \<open>globalTimeout_callback\<close> is the object the timer's callback returns; \<open>setTimeout\<close> does
  nothing with what a callback returns. The body's \<open>contextSummary\<close> is not modelled.
\<close>

record chat_result =
  response :: "proxy_body option http_response"
  sent :: "jsstring list"
  timeout_fired :: bool

text \<open>\<open>!directLineSecret\<close> is false: the backend is called.\<close>

definition has_secret :: "process \<Rightarrow> bool" where
  "has_secret env = (case COPILOT_SECRET env of None \<Rightarrow> False | Some directLineSecret \<Rightarrow> directLineSecret \<noteq> [])"

definition globalTimeout_callback :: "proxy_body option http_response" where
  "globalTimeout_callback =
     \<lparr>statusCode = 200,
      body = Some \<lparr>p_error = Missing,
                   p_answer = Some ([9889] @ S '' Resposta r'' @ [225] @ S ''pida ativada! O Copilot est'' @ [225]
                     @ S '' processando sua pergunta. Funcionalidade otimizada para plano gratuito.''),
                   p_method = S ''FAST_FALLBACK''\<rparr>\<rparr>"

definition recovery :: "jsstring \<Rightarrow> proxy_body option http_response" where
  "recovery message =
     \<lparr>statusCode = 200,
      body = Some \<lparr>p_error = Flag True,
                   p_answer = Some ([9888, 65039] @ S '' Erro de processamento: '' @ message
                     @ S ''. Sistema funcionando em modo de recupera'' @ [231, 227] @ S ''o.''),
                   p_method = S ''ERROR_RECOVERY''\<rparr>\<rparr>"

definition chat_context :: "platform \<Rightarrow> http_event \<Rightarrow> json" where
  "chat_context pf ev =
     (case param ev (S ''context'') of
        None \<Rightarrow> JObj []
      | Some c \<Rightarrow>
          if c = [] then JObj []
          else
            (case after (decodeURIComponent pf c) (\<lambda>rawContext. JSON_parse pf (take 2000 rawContext)) of
               Inl e \<Rightarrow> JObj []
             | Inr v \<Rightarrow>
                 if isArray v \<and> length (elements v) > 0 then
                   (case object_keys (elements v ! 0) of Inl e \<Rightarrow> JObj [] | Inr keys \<Rightarrow> v)
                 else v))"

text \<open>
  The question as the handler keeps it: decoded and cut to 500 code units; \<open>Inl\<close> when
  \<open>decodeURIComponent\<close> throws.
\<close>

definition chat_question :: "platform \<Rightarrow> http_event \<Rightarrow> jsstring result" where
  "chat_question pf ev =
     after (decodeURIComponent pf (param_or ev (S ''question'') [])) (\<lambda>decoded. Inr (take 500 decoded))"

definition chat_exchange :: "platform \<Rightarrow> process \<Rightarrow> http_event \<Rightarrow> jsstring \<Rightarrow> exchange" where
  "chat_exchange pf env ev question = sendToCopilotOptimized pf env question (chat_context pf ev)"

definition chat :: "platform \<Rightarrow> process \<Rightarrow> http_event \<Rightarrow> chat_result" where
  "chat pf env ev =
     (if httpMethod ev = S ''OPTIONS'' then
        \<lparr>response = \<lparr>statusCode = 204, body = None\<rparr>, sent = [],
         timeout_fired = False\<rparr>
      else
        (case chat_question pf ev of
           Inl message \<Rightarrow>
             \<lparr>response = recovery message, sent = [], timeout_fired = False\<rparr>
         | Inr question \<Rightarrow>
             if question = [] then
               \<lparr>response = recovery (S ''Par'' @ [226] @ S ''metro '' @ [39] @ S ''question'' @ [39] @ S '' ''
                                       @ [233] @ S '' obrigat'' @ [243] @ S ''rio''),
                sent = [], timeout_fired = False\<rparr>
             else
               (let contextData = chat_context pf ev;
                    copilot = chat_exchange pf env ev question;
                    cleared_at = lag env + min (settled_at copilot) COPILOT_TIMEOUT;
                    usedMethod = (case raced COPILOT_TIMEOUT copilot of
                                    Inr r \<Rightarrow> S ''COPILOT'' | Inl e \<Rightarrow> S ''FALLBACK'');
                    copilotResponse = (case raced COPILOT_TIMEOUT copilot of Inr r \<Rightarrow> r | Inl e \<Rightarrow> None);
                    finalAnswer =
                      (if or_default copilotResponse [] \<noteq> [] then Inr (or_default copilotResponse [])
                       else generateIntelligentFallback pf question contextData)
                in \<lparr>response =
                       (case finalAnswer of
                          Inr answer \<Rightarrow>
                            \<lparr>statusCode = 200,
                             body = Some \<lparr>p_error = Missing, p_answer = Some answer, p_method = usedMethod\<rparr>\<rparr>
                        | Inl message \<Rightarrow> recovery message),
                     sent = forwarded copilot,
                     timeout_fired = (has_secret env \<and> MAX_EXECUTION_TIME \<le> cleared_at)\<rparr>)))"

section \<open>netlify/functions/chat-iframe.js\<close>













section \<open>netlify/functions/chat-pixel.js\<close>














section \<open>A platform to evaluate with\<close>

text \<open>
  Instances of the runtime's functions for evaluating the handlers at concrete requests.
  They agree with the runtime on the arguments the examples below reach: \<open>toLowerCase\<close> on
  code units below 256; \<open>decodeURIComponent\<close> on strings without a percent sign, and on
  the text \<open>%\<close>, for which it throws; \<open>JSON.parse\<close> on the texts \<open>[]\<close>, \<open>{}\<close>, \<open>[{}]\<close>,
  \<open>[null]\<close> and \<open>[{},null]\<close>; \<open>parseInt\<close> on short decimal numerals; and \<open>JSON.stringify\<close>
  on values whose strings need no escaping (the indented form is not reached).
\<close>

definition lower_unit :: "nat \<Rightarrow> nat" where
  "lower_unit c =
     (if (65 \<le> c \<and> c \<le> 90) \<or> (192 \<le> c \<and> c \<le> 222 \<and> c \<noteq> 215) then c + 32 else c)"

fun plain_stringify :: "json \<Rightarrow> jsstring" where
  "plain_stringify JNull = S ''null''"
| "plain_stringify (JBool b) = (if b then S ''true'' else S ''false'')"
| "plain_stringify (JNum s) = s"
| "plain_stringify (JStr s) = [34] @ s @ [34]"
| "plain_stringify (JArr xs) = S ''['' @ join (S '','') (map plain_stringify xs) @ S '']''"
| "plain_stringify (JObj kvs) =
     S ''{'' @ join (S '','') (map (\<lambda>(k, v). [34] @ k @ [34] @ S '':'' @ plain_stringify v) kvs) @ S ''}''"

definition plain_parseInt :: "jsstring \<Rightarrow> jsstring" where
  "plain_parseInt s =
     (if s \<noteq> [] \<and> list_all (\<lambda>c. 48 \<le> c \<and> c \<le> 57) s
      then (if dropWhile (\<lambda>c. c = 48) s = [] then S ''0'' else dropWhile (\<lambda>c. c = 48) s)
      else S ''NaN'')"

definition plain_platform :: platform where
  "plain_platform =
     \<lparr>toLowerCase = map lower_unit,
      decodeURIComponent = (\<lambda>s. if 37 \<in> set s then Inl (S ''URI malformed'') else Inr s),
      JSON_parse = (\<lambda>s. if s = S ''[]'' then Inr (JArr [])
                          else if s = S ''{}'' then Inr (JObj [])
                          else if s = S ''[{}]'' then Inr (JArr [JObj []])
                          else if s = S ''[null]'' then Inr (JArr [JNull])
                          else if s = S ''[{},null]'' then Inr (JArr [JObj [], JNull])
                          else Inl (S ''Unexpected token'')),
      JSON_stringify = plain_stringify,
      JSON_stringify_indent = plain_stringify,
      parseInt = plain_parseInt\<rparr>"



definition mute_backend :: directline where
  "mute_backend =
     \<lparr>start_conversation =
        (\<lambda>secret. Response 100 201 (Inr \<lparr>conversationId = S ''c1'', token = S ''t1''\<rparr>)),
      post_activity = (\<lambda>conv user message. Response 100 200 (Inr ())),
      get_activities = (\<lambda>conv message k. Response 900 200 (Inr []))\<rparr>"

definition slow_start :: process where
  "slow_start = \<lparr>COPILOT_SECRET = Some (S ''secret''), backend = mute_backend, lag = 3000\<rparr>"

definition query :: "(jsstring \<times> jsstring) list \<Rightarrow> http_event" where
  "query ps = \<lparr>httpMethod = S ''GET'', queryStringParameters = Some (map_of ps)\<rparr>"


text \<open>
  Requests to evaluate the handlers at: a question alone; a question with a context of one
  row, without and with the flags \<open>hasData\<close> and \<open>rowCount\<close> of the widget; and contexts
  with a \<open>null\<close> row, for questions about totals and quantities; and a request without
  parameters.
\<close>

definition bare_question :: http_event where
  "bare_question = query [(S ''question'', S ''oi'')]"







text \<open>
  A question of 506 code units that ends in a keyword of the totals, and the request that
  asks a given question and sends nothing else.
\<close>

definition long_question :: jsstring where
  "long_question = replicate 500 97 @ S '' total''"

definition asks :: "jsstring \<Rightarrow> http_event" where
  "asks q = query [(S ''question'', q)]"
section \<open>Properties of the Data Context Extractor\<close>

lemma sample_row_fold:
  "fold (\<lambda>col row. row(displayName col \<mapsto> nth_opt (col_values col) i)) cols m =
     m ++ map_of (rev (map (\<lambda>col. (displayName col, nth_opt (col_values col) i)) cols))"
  by (induction cols arbitrary: m) (simp_all add: map_add_upd_left)

lemma sample_row_map_of:
  "sample_row cols i = map_of (rev (map (\<lambda>col. (displayName col, nth_opt (col_values col) i)) cols))"
  by (simp add: sample_row_def sample_row_fold)

text \<open>
  Claim C7. \<open>processDataView\<close> returns the empty context (\<open>hasData = false\<close>, no
  columns, no sample) for a missing view, a view without \<open>categorical\<close>, and a view
  with no column. Otherwise it lists the category columns followed by the measure
  columns in source order, sets \<open>rowCount\<close> to the length of the first column's values
  and builds \<open>min rowCount 10\<close> sample rows, row \<open>i\<close> holding for every column its
  \<open>i\<close>-th value under the column's name (a later column of the same name overwrites an
  earlier one). In particular three columns of twelve rows give \<open>rowCount = 12\<close> and ten
  sample rows.
\<close>

theorem processDataView_context:
  "processDataView None = \<lparr>hasData = False, rowCount = 0, columns = [], sampleData = []\<rparr>
   \<and> (categorical dv = None \<longrightarrow>
        processDataView (Some dv) = \<lparr>hasData = False, rowCount = 0, columns = [], sampleData = []\<rparr>)
   \<and> (categorical dv = Some cat \<and> allColumns cat = [] \<longrightarrow>
        processDataView (Some dv) = \<lparr>hasData = False, rowCount = 0, columns = [], sampleData = []\<rparr>)
   \<and> (categorical dv = Some cat \<and> allColumns cat = c # cs \<longrightarrow>
        hasData (processDataView (Some dv))
        \<and> columns (processDataView (Some dv)) = map column_entry (c # cs)
        \<and> rowCount (processDataView (Some dv)) = length (col_values c)
        \<and> length (sampleData (processDataView (Some dv))) = min (length (col_values c)) 10
        \<and> (\<forall>i < min (length (col_values c)) 10.
              sampleData (processDataView (Some dv)) ! i =
                map_of (rev (map (\<lambda>col. (displayName col, nth_opt (col_values col) i)) (c # cs)))))
   \<and> (categorical dv = Some cat \<and> length (allColumns cat) = 3
        \<and> list_all (\<lambda>col. length (col_values col) = 12) (allColumns cat) \<longrightarrow>
        rowCount (processDataView (Some dv)) = 12
        \<and> length (sampleData (processDataView (Some dv))) = 10
        \<and> map ci_name (columns (processDataView (Some dv))) = map displayName (allColumns cat))"
proof -
  have p1: "processDataView None = \<lparr>hasData = False, rowCount = 0, columns = [], sampleData = ([] :: 'a row list)\<rparr>"
    by (simp add: processDataView_def empty_context_def)
  have p2: "categorical dv = None \<longrightarrow>
        processDataView (Some dv) = \<lparr>hasData = False, rowCount = 0, columns = [], sampleData = []\<rparr>"
    by (simp add: processDataView_def empty_context_def)
  have p3: "categorical dv = Some cat \<and> allColumns cat = [] \<longrightarrow>
        processDataView (Some dv) = \<lparr>hasData = False, rowCount = 0, columns = [], sampleData = []\<rparr>"
    by (simp add: processDataView_def empty_context_def)
  have p4: "categorical dv = Some cat \<and> allColumns cat = c # cs \<longrightarrow>
        hasData (processDataView (Some dv))
        \<and> columns (processDataView (Some dv)) = map column_entry (c # cs)
        \<and> rowCount (processDataView (Some dv)) = length (col_values c)
        \<and> length (sampleData (processDataView (Some dv))) = min (length (col_values c)) 10
        \<and> (\<forall>i < min (length (col_values c)) 10.
              sampleData (processDataView (Some dv)) ! i =
                map_of (rev (map (\<lambda>col. (displayName col, nth_opt (col_values col) i)) (c # cs))))"
  proof (intro impI, elim conjE)
    assume a: "categorical dv = Some cat" "allColumns cat = c # cs"
    have e: "processDataView (Some dv) =
        \<lparr>hasData = True, rowCount = length (col_values c),
         columns = map column_entry (c # cs),
         sampleData = map (sample_row (c # cs)) [0..<min (length (col_values c)) 10]\<rparr>"
      using a by (simp add: processDataView_def Let_def)
    show "hasData (processDataView (Some dv))
        \<and> columns (processDataView (Some dv)) = map column_entry (c # cs)
        \<and> rowCount (processDataView (Some dv)) = length (col_values c)
        \<and> length (sampleData (processDataView (Some dv))) = min (length (col_values c)) 10
        \<and> (\<forall>i < min (length (col_values c)) 10.
              sampleData (processDataView (Some dv)) ! i =
                map_of (rev (map (\<lambda>col. (displayName col, nth_opt (col_values col) i)) (c # cs))))"
      unfolding e by (simp add: sample_row_map_of del: map_of.simps)
  qed
  have p5: "categorical dv = Some cat \<and> length (allColumns cat) = 3
        \<and> list_all (\<lambda>col. length (col_values col) = 12) (allColumns cat) \<longrightarrow>
        rowCount (processDataView (Some dv)) = 12
        \<and> length (sampleData (processDataView (Some dv))) = 10
        \<and> map ci_name (columns (processDataView (Some dv))) = map displayName (allColumns cat)"
  proof (intro impI, elim conjE)
    assume a: "categorical dv = Some cat" "length (allColumns cat) = 3"
       "list_all (\<lambda>col. length (col_values col) = 12) (allColumns cat)"
    then obtain c' cs' where b: "allColumns cat = c' # cs'"
      by (cases "allColumns cat") auto
    with a have l: "length (col_values c') = 12" by simp
    show "rowCount (processDataView (Some dv)) = 12
        \<and> length (sampleData (processDataView (Some dv))) = 10
        \<and> map ci_name (columns (processDataView (Some dv))) = map displayName (allColumns cat)"
      using a(1) b l by (simp add: processDataView_def Let_def column_entry_def comp_def)
  qed
  from p1 p2 p3 p4 p5 show ?thesis by blast
qed

theorem processDataView_context_witness:
  "rowCount (processDataView (Some \<lparr>categorical = Some view3x12\<rparr>)) = 12
   \<and> length (sampleData (processDataView (Some \<lparr>categorical = Some view3x12\<rparr>))) = 10
   \<and> map ci_name (columns (processDataView (Some \<lparr>categorical = Some view3x12\<rparr>)))
       = [S ''Medico'', S ''Vendas'', S ''Qtd'']
   \<and> hasData (processDataView (Some \<lparr>categorical = Some view3x12\<rparr>))
   \<and> sampleData (processDataView (Some \<lparr>categorical = Some view3x12\<rparr>)) ! 0 =
       [S ''Medico'' \<mapsto> Some 1, S ''Vendas'' \<mapsto> Some 101, S ''Qtd'' \<mapsto> Some 201]"
proof -
  let ?c = "\<lparr>displayName = S ''Medico'', isMeasure = False, col_values = [1..<13::nat]\<rparr>"
  let ?cs = "[\<lparr>displayName = S ''Vendas'', isMeasure = True, col_values = [101..<113::nat]\<rparr>,
       \<lparr>displayName = S ''Qtd'', isMeasure = True, col_values = [201..<213]\<rparr>]"
  let ?dv = "\<lparr>categorical = Some view3x12\<rparr>"
  have cols: "allColumns view3x12 = ?c # ?cs"
    by (simp add: allColumns_def view3x12_def or_empty_def)
  have pre4: "categorical ?dv = Some view3x12 \<and> allColumns view3x12 = ?c # ?cs"
    using cols by simp
  have pre5: "categorical ?dv = Some view3x12 \<and> length (allColumns view3x12) = 3
        \<and> list_all (\<lambda>col. length (col_values col) = 12) (allColumns view3x12)"
    unfolding cols by simp
  note t = processDataView_context [of ?dv view3x12 ?c ?cs]
  from t pre5 have a: "rowCount (processDataView (Some ?dv)) = 12
      \<and> length (sampleData (processDataView (Some ?dv))) = 10
      \<and> map ci_name (columns (processDataView (Some ?dv))) = map displayName (allColumns view3x12)"
    by blast
  from t pre4 have b: "hasData (processDataView (Some ?dv))
      \<and> (\<forall>i < min (length (col_values ?c)) 10.
              sampleData (processDataView (Some ?dv)) ! i =
                map_of (rev (map (\<lambda>col. (displayName col, nth_opt (col_values col) i)) (?c # ?cs))))"
    by blast
  have names: "S ''Medico'' \<noteq> S ''Vendas''" "S ''Medico'' \<noteq> S ''Qtd''" "S ''Vendas'' \<noteq> S ''Qtd''"
    by (simp_all add: S_def)
  from b have r0: "sampleData (processDataView (Some ?dv)) ! 0 =
       [S ''Medico'' \<mapsto> Some 1, S ''Vendas'' \<mapsto> Some 101, S ''Qtd'' \<mapsto> Some 201]"
    using names by (auto simp add: nth_opt_def fun_eq_iff)
  from a b r0 show ?thesis unfolding cols by simp
qed
section \<open>Properties of the Ephemeral Result Store\<close>





















section \<open>Properties of the Transport Adapters and the Fallback Controller\<close>

lemma S_nonempty: "s \<noteq> [] \<Longrightarrow> S s \<noteq> []"
  by (simp add: S_def)

lemma or_default_nonempty: "d \<noteq> [] \<Longrightarrow> or_default a d \<noteq> []"
  by (simp add: or_default_def split: option.splits)

lemma sendViaJSONP_answer: "snd (sendViaJSONP w p) = Inr a \<Longrightarrow> a \<noteq> []"
  by (auto simp: sendViaJSONP_def or_default_nonempty S_nonempty split: signal.splits if_splits)

lemma sendViaIframe_answer: "snd (sendViaIframe w p) = Inr a \<Longrightarrow> a \<noteq> []"
  by (auto simp: sendViaIframe_def or_default_nonempty S_nonempty split: signal.splits if_splits)

lemma sendViaSSE_answer: "snd (sendViaSSE w p) = Inr a \<Longrightarrow> a \<noteq> []"
  by (auto simp: sendViaSSE_def or_default_nonempty S_nonempty split: signal.splits option.splits if_splits)

declare checkResponse.simps [simp del]

lemma checkResponse_answer: "snd (checkResponse polls attempts t) = Inr a \<Longrightarrow> a \<noteq> []"
proof (induction polls attempts t rule: checkResponse.induct)
  case (1 polls attempts t)
  show ?case
  proof (cases "Suc attempts > maxAttempts")
    case True
    with "1.prems" show ?thesis by (simp add: checkResponse.simps [of polls attempts t])
  next
    case False
    obtain latency r where pr: "polls (Suc attempts) = (latency, r)" by (cases "polls (Suc attempts)")
    show ?thesis
    proof (cases r)
      case PollFailed
      with False pr "1.prems" have "snd (checkResponse polls (Suc attempts) (t + latency + 1000)) = Inr a"
        by (simp add: checkResponse.simps [of polls attempts t])
      with "1.IH"(1) [OF False pr [symmetric] PollFailed] show ?thesis by simp
    next
      case NotYet
      with False pr "1.prems" have "snd (checkResponse polls (Suc attempts) (t + latency + 1000)) = Inr a"
        by (simp add: checkResponse.simps [of polls attempts t])
      with "1.IH"(2) [OF False pr [symmetric] NotYet] show ?thesis by simp
    next
      case (Ready d)
      with False pr "1.prems" show ?thesis
        by (auto simp: checkResponse.simps [of polls attempts t] or_default_nonempty S_nonempty split: if_splits)
    qed
  qed
qed

lemma invoke_answer: "snd (invoke f w p) = Inr a \<Longrightarrow> a \<noteq> []"
  by (cases f)
     (simp_all add: invoke_def sendViaJSONP_answer sendViaIframe_answer sendViaSSE_answer
        sendViaPixel_def checkResponse_answer)

lemma race_answer: "snd (race r) = Inr a \<Longrightarrow> snd r = Inr a"
  by (simp add: race_def split: if_splits)

lemma attempt_answer: "attempt w q st i = Inr a \<Longrightarrow> a \<noteq> []"
  unfolding attempt_def by (blast dest: race_answer invoke_answer)

lemma set_enabled_length [simp]: "length (set_enabled b j ms) = length ms"
  by (simp add: set_enabled_def)

lemma set_enabled_name [simp]: "name (set_enabled b j ms ! i) = name (ms ! i)"
  by (cases "i = j") (simp_all add: set_enabled_def)

lemma set_enabled_func [simp]: "func (set_enabled b j ms ! i) = func (ms ! i)"
  by (cases "i = j") (simp_all add: set_enabled_def)

lemma set_enabled_priority [simp]: "priority (set_enabled b j ms ! i) = priority (ms ! i)"
  by (cases "i = j") (simp_all add: set_enabled_def)

lemma set_enabled_enabled:
  "enabled (set_enabled b j ms ! i) = (if i = j \<and> i < length ms then b else enabled (ms ! i))"
  by (cases "i = j") (simp_all add: set_enabled_def)

lemma fold_enable_length [simp]:
  "length (fold (\<lambda>(at, j) ms. set_enabled True j ms) ts ms) = length ms"
  by (induction ts arbitrary: ms) auto

lemma fold_enable_name [simp]:
  "name (fold (\<lambda>(at, j) ms. set_enabled True j ms) ts ms ! i) = name (ms ! i)"
  by (induction ts arbitrary: ms) auto

lemma fold_enable_func [simp]:
  "func (fold (\<lambda>(at, j) ms. set_enabled True j ms) ts ms ! i) = func (ms ! i)"
  by (induction ts arbitrary: ms) auto

lemma fold_enable_priority [simp]:
  "priority (fold (\<lambda>(at, j) ms. set_enabled True j ms) ts ms ! i) = priority (ms ! i)"
  by (induction ts arbitrary: ms) auto

lemma fold_enable_enabled:
  "enabled (fold (\<lambda>(at, j) ms. set_enabled True j ms) ts ms ! i) =
     (enabled (ms ! i) \<or> (i < length ms \<and> i \<in> snd ` set ts))"
proof (induction ts arbitrary: ms)
  case Nil
  show ?case by simp
next
  case (Cons x ts)
  obtain at j where x: "x = (at, j)" by (cases x)
  show ?case
    unfolding x by (simp add: Cons.IH set_enabled_enabled) blast
qed

lemma await_simps [simp]:
  "length (communicationMethods (await d st)) = length (communicationMethods st)"
  "name (communicationMethods (await d st) ! i) = name (communicationMethods st ! i)"
  "func (communicationMethods (await d st) ! i) = func (communicationMethods st ! i)"
  "priority (communicationMethods (await d st) ! i) = priority (communicationMethods st ! i)"
  "dataContext (await d st) = dataContext st"
  "methodStatus (await d st) = methodStatus st"
  "now (await d st) = now st + d"
  by (simp_all add: await_def)

lemma on_failure_simps [simp]:
  "length (communicationMethods (on_failure j st)) = length (communicationMethods st)"
  "name (communicationMethods (on_failure j st) ! i) = name (communicationMethods st ! i)"
  "func (communicationMethods (on_failure j st) ! i) = func (communicationMethods st ! i)"
  "priority (communicationMethods (on_failure j st) ! i) = priority (communicationMethods st ! i)"
  "dataContext (on_failure j st) = dataContext st"
  "methodStatus (on_failure j st) = methodStatus st"
  "now (on_failure j st) = now st"
  by (simp_all add: on_failure_def)

lemma updateMethodStatus_simps [simp]:
  "communicationMethods (updateMethodStatus s st) = communicationMethods st"
  "dataContext (updateMethodStatus s st) = dataContext st"
  "methodStatus (updateMethodStatus s st) = methodStatus st @ [s]"
  "now (updateMethodStatus s st) = now st"
  "reenable (updateMethodStatus s st) = reenable st"
  by (simp_all add: updateMethodStatus_def)

lemma attempt_cong:
  "func (communicationMethods st' ! i) = func (communicationMethods st ! i) \<Longrightarrow>
   dataContext st' = dataContext st \<Longrightarrow> attempt w q st' i = attempt w q st i"
  by (simp add: attempt_def request_of_def)

lemma trying_cong:
  "name (communicationMethods st' ! i) = name (communicationMethods st ! i) \<Longrightarrow> trying st' i = trying st i"
  by (simp add: trying_def)

lemma try_methods_step:
  "try_methods w q (i # rest) le st =
     (case attempt w q st i of
        Inr answer \<Rightarrow>
          (Inr answer,
           updateMethodStatus ([9989] @ S '' Conectado via '' @ name (communicationMethods st ! i))
             ((await (fst (race (invoke (func (communicationMethods st ! i)) w (request_of q st))))
                 (updateMethodStatus (trying st i) st))\<lparr>lastUsedMethod := name (communicationMethods st ! i)\<rparr>))
      | Inl message \<Rightarrow>
          try_methods w q rest (Some message)
            (on_failure i (await (fst (race (invoke (func (communicationMethods st ! i)) w (request_of q st))))
                 (updateMethodStatus (trying st i) st))))"
proof -
  obtain d result where r: "race (invoke (func (communicationMethods st ! i)) w (request_of q st)) = (d, result)"
    by (cases "race (invoke (func (communicationMethods st ! i)) w (request_of q st))")
  have rq: "request_of q (updateMethodStatus s st) = request_of q st" for s
    by (simp add: request_of_def)
  show ?thesis
    by (cases result) (simp_all add: attempt_def trying_def rq r Let_def)
qed

declare try_methods.simps(2) [simp del]

lemma try_methods_answer:
  "try_methods w q is le st = (Inr a, st') \<Longrightarrow> a \<noteq> []"
proof (induction "is" arbitrary: le st)
  case Nil
  then show ?case by simp
next
  case (Cons i rest)
  show ?case
  proof (cases "attempt w q st i")
    case (Inl message)
    with Cons.prems have "try_methods w q rest (Some message)
            (on_failure i (await (fst (race (invoke (func (communicationMethods st ! i)) w (request_of q st))))
                 (updateMethodStatus (trying st i) st))) = (Inr a, st')"
      by (simp add: try_methods_step)
    then show ?thesis by (rule Cons.IH)
  next
    case (Inr answer)
    with Cons.prems have "answer = a" by (simp add: try_methods_step)
    with Inr show ?thesis by (simp add: attempt_answer)
  qed
qed

lemma try_methods_exhausted:
  "try_methods w q is le st = (Inl m, st') \<Longrightarrow>
     list_all (\<lambda>i. isl (attempt w q st i)) is
     \<and> methodStatus st' = methodStatus st @ map (trying st) is @ [all_failed]
     \<and> m = exhausted (if is = [] then le else Some (projl (attempt w q st (last is))))"
proof (induction "is" arbitrary: le st)
  case Nil
  then show ?case by auto
next
  case (Cons i rest)
  define st3 where "st3 = on_failure i (await (fst (race (invoke (func (communicationMethods st ! i)) w (request_of q st))))
                 (updateMethodStatus (trying st i) st))"
  have same1: "attempt w q st3 = attempt w q st"
    unfolding st3_def by (rule ext, rule attempt_cong) simp_all
  have same2: "trying st3 = trying st"
    unfolding st3_def by (rule ext, rule trying_cong) simp
  note same = same1 same2
  have status: "methodStatus st3 = methodStatus st @ [trying st i]"
    unfolding st3_def by simp
  show ?case
  proof (cases "attempt w q st i")
    case (Inr answer)
    with Cons.prems show ?thesis by (simp add: try_methods_step)
  next
    case (Inl message)
    with Cons.prems have "try_methods w q rest (Some message) st3 = (Inl m, st')"
      by (simp add: try_methods_step st3_def)
    from Cons.IH [OF this]
    have ih: "list_all (\<lambda>i. isl (attempt w q st i)) rest"
      "methodStatus st' = (methodStatus st @ [trying st i]) @ map (trying st) rest @ [all_failed]"
      "m = exhausted (if rest = [] then Some message else Some (projl (attempt w q st (last rest))))"
      unfolding same status by blast+
    have l: "(if rest = [] then Some message else Some (projl (attempt w q st (last rest))))
        = Some (projl (attempt w q st (last (i # rest))))"
      using Inl by simp
    from ih(1) Inl have a: "list_all (\<lambda>i. isl (attempt w q st i)) (i # rest)" by simp
    from ih(2) have b: "methodStatus st' = methodStatus st @ map (trying st) (i # rest) @ [all_failed]" by simp
    from ih(3) l have c: "m = exhausted (if i # rest = [] then le else Some (projl (attempt w q st (last (i # rest)))))"
      by simp
    from a b c show ?thesis by blast
  qed
qed


lemma enabledMethods_set:
  "set (enabledMethods st) = {i. i < length (communicationMethods st) \<and> enabled (communicationMethods st ! i)}"
  by (auto simp: enabledMethods_def)

lemma enabledMethods_distinct: "distinct (enabledMethods st)"
  by (simp add: enabledMethods_def)

lemma enabledMethods_sorted:
  "sorted (map (\<lambda>i. priority (communicationMethods st ! i)) (enabledMethods st))"
  by (simp add: enabledMethods_def)

lemma exhausted_Some:
  "exhausted (Some e) = S ''Comunica'' @ [231, 227] @ S ''o falhou. '' @ [218] @ S ''ltimo erro: '' @ e"
  by (simp add: exhausted_def)

lemma exhausted_None:
  "exhausted None = S ''Comunica'' @ [231, 227] @ S ''o falhou. '' @ [218] @ S ''ltimo erro: '' @ S ''undefined''"
  by (simp add: exhausted_def)

text \<open>
  Claim C1. Whatever the question, the cached context and the world,
  \<open>sendMessageWithFallback\<close> either resolves with a non-empty answer, or rejects; and when
  it rejects, every method of \<open>enabledMethods\<close> was tried and failed, the status texts
  written are one \<open>Tentando ...\<close> per method of \<open>enabledMethods\<close>, in its order, followed by
  the text of total failure, and (when a method was enabled at all) the rejection message
  is the text "Comunicacao falhou. Ultimo erro: " (with its accents) followed by the message of the last
  method's failure. \<open>enabledMethods\<close> holds each method enabled at the start of the call
  exactly once, in ascending priority.
\<close>

theorem sendMessageWithFallback_resolves_or_exhausts:
  "(case sendMessageWithFallback w q st of
      (Inr answer, st') \<Rightarrow> answer \<noteq> []
    | (Inl message, st') \<Rightarrow>
        list_all (\<lambda>i. isl (attempt w q st i)) (enabledMethods st)
        \<and> methodStatus st' = methodStatus st @ map (trying st) (enabledMethods st) @ [all_failed]
        \<and> (enabledMethods st \<noteq> [] \<longrightarrow>
              message = S ''Comunica'' @ [231, 227] @ S ''o falhou. '' @ [218] @ S ''ltimo erro: ''
                          @ projl (attempt w q st (last (enabledMethods st)))))
   \<and> distinct (enabledMethods st)
   \<and> set (enabledMethods st)
        = {i. i < length (communicationMethods st) \<and> enabled (communicationMethods st ! i)}
   \<and> sorted (map (\<lambda>i. priority (communicationMethods st ! i)) (enabledMethods st))"
proof -
  obtain r st' where res: "sendMessageWithFallback w q st = (r, st')"
    by (cases "sendMessageWithFallback w q st")
  have "case r of
      Inr answer \<Rightarrow> answer \<noteq> []
    | Inl message \<Rightarrow>
        list_all (\<lambda>i. isl (attempt w q st i)) (enabledMethods st)
        \<and> methodStatus st' = methodStatus st @ map (trying st) (enabledMethods st) @ [all_failed]
        \<and> (enabledMethods st \<noteq> [] \<longrightarrow>
              message = S ''Comunica'' @ [231, 227] @ S ''o falhou. '' @ [218] @ S ''ltimo erro: ''
                          @ projl (attempt w q st (last (enabledMethods st))))"
  proof (cases r)
    case (Inr answer)
    with res have "try_methods w q (enabledMethods st) None st = (Inr answer, st')"
      by (simp add: sendMessageWithFallback_def)
    then have "answer \<noteq> []" by (rule try_methods_answer)
    with Inr show ?thesis by simp
  next
    case (Inl message)
    with res have "try_methods w q (enabledMethods st) None st = (Inl message, st')"
      by (simp add: sendMessageWithFallback_def)
    from try_methods_exhausted [OF this] Inl show ?thesis
      by (simp add: exhausted_Some)
  qed
  with res show ?thesis
    by (simp add: enabledMethods_set enabledMethods_distinct enabledMethods_sorted)
qed

text \<open>
  Claim C10. When every method is disabled, \<open>enabledMethods\<close> is empty and
  \<open>sendMessageWithFallback\<close> rejects without trying any adapter and without any time
  passing: the state changes only by the status text of total failure, and the rejection
  message interpolates the missing \<open>lastError\<close> as \<open>undefined\<close>.
\<close>

theorem all_disabled_rejects_at_once:
  "list_all (\<lambda>m. \<not> enabled m) (communicationMethods st) \<longrightarrow>
     enabledMethods st = []
     \<and> sendMessageWithFallback w q st =
         (Inl (S ''Comunica'' @ [231, 227] @ S ''o falhou. '' @ [218] @ S ''ltimo erro: '' @ S ''undefined''),
          st\<lparr>methodStatus := methodStatus st @ [all_failed]\<rparr>)"
proof
  assume a: "list_all (\<lambda>m. \<not> enabled m) (communicationMethods st)"
  have "filter (\<lambda>i. enabled (communicationMethods st ! i)) [0..<length (communicationMethods st)] = []"
    using a by (auto simp: filter_empty_conv list_all_length)
  then have e: "enabledMethods st = []"
    by (simp add: enabledMethods_def)
  show "enabledMethods st = []
     \<and> sendMessageWithFallback w q st =
         (Inl (S ''Comunica'' @ [231, 227] @ S ''o falhou. '' @ [218] @ S ''ltimo erro: '' @ S ''undefined''),
          st\<lparr>methodStatus := methodStatus st @ [all_failed]\<rparr>)"
    by (simp add: e sendMessageWithFallback_def exhausted_None updateMethodStatus_def)
qed

theorem all_disabled_rejects_at_once_witness:
  "sendMessageWithFallback silent_world (S ''total?'') idle_visual =
     (Inl (S ''Comunica'' @ [231, 227] @ S ''o falhou. '' @ [218] @ S ''ltimo erro: undefined''),
      idle_visual\<lparr>methodStatus := [all_failed]\<rparr>)"
proof -
  have a: "list_all (\<lambda>m. \<not> enabled m) (communicationMethods idle_visual)"
    by (simp add: idle_visual_def new_visual_def initializeCommunicationMethods_def)
  have b: "methodStatus idle_visual = []"
    by (simp add: idle_visual_def new_visual_def)
  have c: "S ''ltimo erro: '' @ S ''undefined'' = S ''ltimo erro: undefined''"
    by (simp add: S_def)
  from all_disabled_rejects_at_once [of idle_visual silent_world "S ''total?''"] a
  show ?thesis by (simp add: b c)
qed


lemma checkResponse_silent:
  "a \<le> maxAttempts \<Longrightarrow>
     checkResponse (\<lambda>k. (0, NotYet)) a t =
       (t + (maxAttempts - a) * 1000, Inl (S ''Pixel timeout ap'' @ [243] @ S ''s 15 segundos''))"
proof (induction "maxAttempts - a" arbitrary: a t)
  case 0
  then have "a = maxAttempts" by simp
  then show ?case by (simp add: checkResponse.simps [of _ maxAttempts t])
next
  case (Suc n)
  then have lt: "a < maxAttempts" and n: "n = maxAttempts - Suc a" by simp_all
  from lt have le: "Suc a \<le> maxAttempts" by simp
  have "checkResponse (\<lambda>k. (0, NotYet)) a t = checkResponse (\<lambda>k. (0, NotYet)) (Suc a) (t + 0 + 1000)"
    using lt by (simp add: checkResponse.simps [of _ a t])
  also have "\<dots> = (t + 0 + 1000 + (maxAttempts - Suc a) * 1000, Inl (S ''Pixel timeout ap'' @ [243] @ S ''s 15 segundos''))"
    using Suc.hyps(1) [OF n le] .
  also have "t + 0 + 1000 + (maxAttempts - Suc a) * 1000 = t + (maxAttempts - a) * 1000"
    using lt by (simp add: Suc_diff_Suc [symmetric])
  finally show ?case .
qed

lemma silent_pixel:
  "checkResponse (\<lambda>k. (0, NotYet)) 0 2000 = (17000, Inl (S ''Pixel timeout ap'' @ [243] @ S ''s 15 segundos''))"
  using checkResponse_silent [of 0 2000] by (simp add: maxAttempts_def)

lemma new_visual_enabledMethods: "enabledMethods (new_visual :: nat visual) = [0, 1, 2, 3]"
  by (simp add: enabledMethods_def new_visual_def initializeCommunicationMethods_def upt_conv_Cons)

lemma silent_attempts:
  "attempt silent_world q (new_visual :: nat visual) 0 = Inl (S ''JSONP timeout ap'' @ [243] @ S ''s 15 segundos'')"
  "attempt silent_world q (new_visual :: nat visual) 1 = Inl (S ''Iframe timeout ap'' @ [243] @ S ''s 15 segundos'')"
  "attempt silent_world q (new_visual :: nat visual) 2 = Inl (S ''SSE timeout ap'' @ [243] @ S ''s 15 segundos'')"
  "attempt silent_world q (new_visual :: nat visual) 3 = Inl (S ''Timeout geral'')"
  by (simp_all add: attempt_def new_visual_def initializeCommunicationMethods_def invoke_def
      sendViaJSONP_def sendViaIframe_def sendViaSSE_def sendViaPixel_def silent_world_def silent_pixel
      race_def RACE_TIMEOUT_def ADAPTER_TIMEOUT_def)


lemma try_methods_all_fail:
  "list_all (\<lambda>i. isl (attempt w q st i)) is \<Longrightarrow> isl (fst (try_methods w q is le st))"
proof (induction "is" arbitrary: le st)
  case Nil
  show ?case by simp
next
  case (Cons i rest)
  define st3 where "st3 = on_failure i (await (fst (race (invoke (func (communicationMethods st ! i)) w (request_of q st))))
                 (updateMethodStatus (trying st i) st))"
  have same: "attempt w q st3 = attempt w q st"
    unfolding st3_def by (rule ext, rule attempt_cong) simp_all
  from Cons.prems obtain message where f: "attempt w q st i = Inl message"
    by (cases "attempt w q st i") simp_all
  from Cons.prems have "list_all (\<lambda>i. isl (attempt w q st3 i)) rest"
    by (simp add: same)
  then have "isl (fst (try_methods w q rest (Some message) st3))"
    by (rule Cons.IH)
  then show ?case
    by (simp add: try_methods_step f st3_def)
qed

theorem sendMessageWithFallback_resolves_or_exhausts_witness:
  "fst (sendMessageWithFallback silent_world (S ''total?'') (new_visual :: nat visual))
     = Inl (S ''Comunica'' @ [231, 227] @ S ''o falhou. '' @ [218] @ S ''ltimo erro: Timeout geral'')
   \<and> methodStatus (snd (sendMessageWithFallback silent_world (S ''total?'') (new_visual :: nat visual)))
     = [S ''Tentando JSONP...'', S ''Tentando Iframe...'', S ''Tentando SSE...'', S ''Tentando Pixel...'',
        [10060] @ S '' Todos os m'' @ [233] @ S ''todos falharam'']"
proof -
  let ?q = "S ''total?''"
  let ?st = "new_visual :: nat visual"
  have "list_all (\<lambda>i. isl (attempt silent_world ?q ?st i)) (enabledMethods ?st)"
    by (simp add: new_visual_enabledMethods silent_attempts del: One_nat_def)
  then have "isl (fst (sendMessageWithFallback silent_world ?q ?st))"
    unfolding sendMessageWithFallback_def by (rule try_methods_all_fail)
  then obtain m st' where r: "sendMessageWithFallback silent_world ?q ?st = (Inl m, st')"
    by (cases "sendMessageWithFallback silent_world ?q ?st") (auto simp: isl_def)
  have names: "map (trying ?st) [0, 1, 2, 3] =
      [S ''Tentando JSONP...'', S ''Tentando Iframe...'', S ''Tentando SSE...'', S ''Tentando Pixel...'']"
    by (simp add: trying_def new_visual_def initializeCommunicationMethods_def S_def del: One_nat_def)
  have st0: "methodStatus ?st = []" by (simp add: new_visual_def)
  have tail: "S ''ltimo erro: '' @ S ''Timeout geral'' = S ''ltimo erro: Timeout geral''"
    by (simp add: S_def)
  from sendMessageWithFallback_resolves_or_exhausts [of silent_world ?q ?st]
  have "m = S ''Comunica'' @ [231, 227] @ S ''o falhou. '' @ [218] @ S ''ltimo erro: '' @ S ''Timeout geral''
      \<and> methodStatus st' = map (trying ?st) [0, 1, 2, 3] @ [all_failed]"
    unfolding r by (simp add: new_visual_enabledMethods silent_attempts st0 del: One_nat_def)
  then have "m = S ''Comunica'' @ [231, 227] @ S ''o falhou. '' @ [218] @ S ''ltimo erro: '' @ S ''Timeout geral''
      \<and> methodStatus st' =
          [S ''Tentando JSONP...'', S ''Tentando Iframe...'', S ''Tentando SSE...'', S ''Tentando Pixel...'']
            @ [all_failed]"
    unfolding names .
  with r show ?thesis
    by (simp add: tail all_failed_def)
qed


lemma await_enabled:
  "enabled (communicationMethods (await d st) ! i) =
     (enabled (communicationMethods st ! i)
      \<or> (i < length (communicationMethods st) \<and> (\<exists>at. (at, i) \<in> set (reenable st) \<and> at \<le> now st + d)))"
  by (auto simp: await_def fold_enable_enabled image_iff)

lemma await_reenable:
  "(at, j) \<in> set (reenable (await d st)) = ((at, j) \<in> set (reenable st) \<and> now st + d < at)"
  by (auto simp: await_def)

lemma on_failure_enabled:
  "enabled (communicationMethods (on_failure j st) ! i) =
     (if i = j \<and> i < length (communicationMethods st) then False else enabled (communicationMethods st ! i))"
  by (simp add: on_failure_def set_enabled_enabled)

lemma on_failure_reenable:
  "reenable (on_failure j st) = reenable st @ [(now st + COOLDOWN, j)]"
  by (simp add: on_failure_def)

lemma idle_iff: "idle i st = (\<forall>at. (at, i) \<notin> set (reenable st))"
proof
  assume idl: "idle i st"
  show "\<forall>at. (at, i) \<notin> set (reenable st)"
  proof (intro allI notI)
    fix at
    assume "(at, i) \<in> set (reenable st)"
    then have "snd (at, i) \<in> snd ` set (reenable st)" by (rule imageI)
    with idl show False by (simp add: idle_def)
  qed
next
  assume a: "\<forall>at. (at, i) \<notin> set (reenable st)"
  show "idle i st"
    unfolding idle_def
  proof
    assume "i \<in> snd ` set (reenable st)"
    then obtain x where x: "x \<in> set (reenable st)" "i = snd x" by (rule imageE)
    then have "(fst x, i) \<in> set (reenable st)" by simp
    with a show False by blast
  qed
qed

lemma cooling_await:
  assumes c: "cooling t i st"
  shows "cooling t i (await d st)"
proof -
  from c have len: "i < length (communicationMethods st)" by (simp add: cooling_def)
  show ?thesis
  proof (cases "now st < t")
    case old: True
    with c have dis: "\<not> enabled (communicationMethods st ! i)"
      and tm: "(t, i) \<in> set (reenable st)"
      and only: "\<forall>at. (at, i) \<in> set (reenable st) \<longrightarrow> t \<le> at \<and> at \<le> t"
      by (simp_all add: cooling_def)
    show ?thesis
    proof (cases "now st + d < t")
      case True
      have "\<not> (\<exists>at. (at, i) \<in> set (reenable st) \<and> at \<le> now st + d)"
        using only True by auto
      with dis have "\<not> enabled (communicationMethods (await d st) ! i)"
        unfolding await_enabled by blast
      moreover have "(t, i) \<in> set (reenable (await d st))"
        using tm True by (simp add: await_reenable)
      moreover have "\<forall>at. (at, i) \<in> set (reenable (await d st)) \<longrightarrow> t \<le> at \<and> at \<le> t"
        using only unfolding await_reenable by blast
      ultimately show ?thesis
        using True len by (simp add: cooling_def)
    next
      case False
      then have le: "t \<le> now st + d" by simp
      have "enabled (communicationMethods (await d st) ! i)"
        unfolding await_enabled using tm le len by blast
      moreover have "idle i (await d st)"
        unfolding idle_iff
      proof (intro allI notI)
        fix at
        assume "(at, i) \<in> set (reenable (await d st))"
        then have m: "(at, i) \<in> set (reenable st)" "now st + d < at" by (simp_all add: await_reenable)
        with only le show False by force
      qed
      ultimately show ?thesis
        using False len by (simp add: cooling_def)
    qed
  next
    case False
    with c have en: "enabled (communicationMethods st ! i)" and idl: "idle i st"
      by (simp_all add: cooling_def)
    have "enabled (communicationMethods (await d st) ! i)"
      using en by (simp add: await_enabled)
    moreover have "idle i (await d st)"
      using idl unfolding idle_iff by (simp add: await_reenable)
    ultimately show ?thesis
      using False len by (simp add: cooling_def)
  qed
qed

lemma cooling_on_failure: "cooling t i st \<Longrightarrow> j \<noteq> i \<Longrightarrow> cooling t i (on_failure j st)"
  unfolding cooling_def idle_iff
  by (simp add: on_failure_enabled on_failure_reenable)

lemma cooling_start:
  "i < length (communicationMethods st) \<Longrightarrow> idle i st \<Longrightarrow>
     cooling (now st + COOLDOWN) i (on_failure i st)"
  unfolding cooling_def idle_iff
  by (simp add: on_failure_enabled on_failure_reenable COOLDOWN_def)

lemma cooling_pass:
  "cooling t i st \<Longrightarrow> \<not> list_ex (fails i) ts \<Longrightarrow> cooling t i (pass st ts)"
proof (induction ts arbitrary: st)
  case Nil
  then show ?case by simp
next
  case (Cons x ts)
  show ?case
  proof (cases x)
    case (Wait d)
    with Cons show ?thesis by (simp add: cooling_await)
  next
    case (Fails j)
    with Cons show ?thesis by (simp add: cooling_on_failure)
  qed
qed

lemma now_pass: "now (pass st ts) = now st + elapsed ts"
proof (induction ts arbitrary: st)
  case Nil
  show ?case by simp
next
  case (Cons x ts)
  then show ?case by (cases x) simp_all
qed

lemma cooling_selected:
  "cooling t i st \<Longrightarrow> (i \<in> set (enabledMethods st)) = (t \<le> now st)"
  unfolding cooling_def enabledMethods_set by (cases "now st < t") auto

lemma timers_ok_idle:
  "timers_ok st \<Longrightarrow> enabled (communicationMethods st ! i) \<Longrightarrow> idle i st"
  unfolding timers_ok_def idle_iff list_all_iff by auto

lemma timers_ok_new: "timers_ok new_visual"
  by (simp add: timers_ok_def new_visual_def)


lemma timers_ok_await:
  assumes ok: "timers_ok st"
  shows "timers_ok (await d st)"
proof -
  from ok have dist: "distinct (map snd (reenable st))"
    and each: "\<And>at j. (at, j) \<in> set (reenable st) \<Longrightarrow>
        j < length (communicationMethods st) \<and> \<not> enabled (communicationMethods st ! j)"
    by (auto simp: timers_ok_def list_all_iff)
  have d': "distinct (map snd (reenable (await d st)))"
    using dist by (simp add: await_def distinct_map_filter)
  have "\<And>at j. (at, j) \<in> set (reenable (await d st)) \<Longrightarrow>
        j < length (communicationMethods (await d st)) \<and> \<not> enabled (communicationMethods (await d st) ! j)"
  proof -
    fix at j
    assume "(at, j) \<in> set (reenable (await d st))"
    then have m: "(at, j) \<in> set (reenable st)" and late: "now st + d < at"
      by (simp_all add: await_reenable)
    have "\<not> (\<exists>at'. (at', j) \<in> set (reenable st) \<and> at' \<le> now st + d)"
    proof
      assume "\<exists>at'. (at', j) \<in> set (reenable st) \<and> at' \<le> now st + d"
      then obtain at' where m': "(at', j) \<in> set (reenable st)" and due: "at' \<le> now st + d" by blast
      from dist have "inj_on snd (set (reenable st))" by (simp add: distinct_map)
      from inj_onD [OF this _ m m'] have "(at, j) = (at', j)" by simp
      with late due show False by simp
    qed
    with each [OF m] show "j < length (communicationMethods (await d st))
        \<and> \<not> enabled (communicationMethods (await d st) ! j)"
      by (simp add: await_enabled)
  qed
  with d' show ?thesis
    by (auto simp: timers_ok_def list_all_iff)
qed

lemma timers_ok_on_failure:
  assumes ok: "timers_ok st" and len: "i < length (communicationMethods st)"
    and en: "enabled (communicationMethods st ! i)"
  shows "timers_ok (on_failure i st)"
proof -
  from ok en have idl: "idle i st" by (rule timers_ok_idle)
  then have fresh: "i \<notin> snd ` set (reenable st)" by (simp add: idle_def)
  from ok have dist: "distinct (map snd (reenable st))"
    and each: "\<And>at j. (at, j) \<in> set (reenable st) \<Longrightarrow>
        j < length (communicationMethods st) \<and> \<not> enabled (communicationMethods st ! j)"
    by (auto simp: timers_ok_def list_all_iff)
  have d': "distinct (map snd (reenable (on_failure i st)))"
    using dist fresh by (simp add: on_failure_reenable)
  have "\<And>at j. (at, j) \<in> set (reenable (on_failure i st)) \<Longrightarrow>
        j < length (communicationMethods (on_failure i st))
        \<and> \<not> enabled (communicationMethods (on_failure i st) ! j)"
    using each len by (auto simp: on_failure_reenable on_failure_enabled)
  with d' show ?thesis
    by (auto simp: timers_ok_def list_all_iff)
qed

lemma timers_ok_cong:
  "same_timing st st' \<Longrightarrow> timers_ok st = timers_ok st'"
  by (simp add: timers_ok_def same_timing_def)

lemma same_timing_status [simp]:
  "same_timing (updateMethodStatus s st) st"
  "same_timing (st\<lparr>lastUsedMethod := n\<rparr>) st"
  by (simp_all add: same_timing_def updateMethodStatus_def)

lemma same_timing_trans: "same_timing a b \<Longrightarrow> same_timing b c \<Longrightarrow> same_timing a c"
  by (simp add: same_timing_def)

lemma same_timing_await: "same_timing st st' \<Longrightarrow> same_timing (await d st) (await d st')"
  by (simp add: same_timing_def await_def)

lemma same_timing_on_failure: "same_timing st st' \<Longrightarrow> same_timing (on_failure j st) (on_failure j st')"
  by (simp add: same_timing_def on_failure_def)

lemma same_timing_pass: "same_timing st st' \<Longrightarrow> same_timing (pass st ts) (pass st' ts)"
proof (induction ts arbitrary: st st')
  case Nil
  then show ?case by simp
next
  case (Cons x ts)
  then show ?case
    by (cases x) (simp_all add: same_timing_await same_timing_on_failure)
qed

lemma call_ticks_cong:
  "(\<And>i. func (communicationMethods st' ! i) = func (communicationMethods st ! i)) \<Longrightarrow>
   dataContext st' = dataContext st \<Longrightarrow> call_ticks w q st' is = call_ticks w q st is"
  by (induction "is") (simp_all add: attempt_def request_of_def split: sum.splits)

lemma try_methods_ticks:
  "same_timing (snd (try_methods w q is le st)) (pass st (call_ticks w q st is))"
proof (induction "is" arbitrary: le st)
  case Nil
  show ?case by simp
next
  case (Cons i rest)
  define d where "d = fst (race (invoke (func (communicationMethods st ! i)) w (request_of q st)))"
  define st2 where "st2 = await d (updateMethodStatus (trying st i) st)"
  have s2: "same_timing st2 (await d st)"
    unfolding st2_def by (rule same_timing_await) simp
  show ?case
  proof (cases "attempt w q st i")
    case (Inr answer)
    have "same_timing (updateMethodStatus ([9989] @ S '' Conectado via '' @ name (communicationMethods st ! i))
             (st2\<lparr>lastUsedMethod := name (communicationMethods st ! i)\<rparr>)) st2"
      by (rule same_timing_trans [OF same_timing_status(1) same_timing_status(2)])
    with s2 have "same_timing (updateMethodStatus ([9989] @ S '' Conectado via '' @ name (communicationMethods st ! i))
             (st2\<lparr>lastUsedMethod := name (communicationMethods st ! i)\<rparr>)) (await d st)"
      by (rule same_timing_trans [rotated])
    with Inr show ?thesis
      by (simp add: try_methods_step d_def [symmetric] st2_def [symmetric])
  next
    case (Inl message)
    have ticks: "call_ticks w q (on_failure i st2) rest = call_ticks w q st rest"
      by (rule call_ticks_cong) (simp_all add: st2_def)
    have "same_timing (snd (try_methods w q rest (Some message) (on_failure i st2)))
            (pass (on_failure i st2) (call_ticks w q st rest))"
      using Cons.IH [of "Some message" "on_failure i st2"] unfolding ticks .
    moreover have "same_timing (pass (on_failure i st2) (call_ticks w q st rest))
            (pass (on_failure i (await d st)) (call_ticks w q st rest))"
      by (intro same_timing_pass same_timing_on_failure s2)
    ultimately have "same_timing (snd (try_methods w q rest (Some message) (on_failure i st2)))
            (pass (on_failure i (await d st)) (call_ticks w q st rest))"
      by (rule same_timing_trans)
    with Inl show ?thesis
      by (simp add: try_methods_step d_def [symmetric] st2_def [symmetric])
  qed
qed

lemma sendMessageWithFallback_ticks:
  "same_timing (snd (sendMessageWithFallback w q st)) (pass st (call_ticks w q st (enabledMethods st)))"
  unfolding sendMessageWithFallback_def by (rule try_methods_ticks)


lemma try_methods_timers_ok:
  "timers_ok st \<Longrightarrow> distinct is \<Longrightarrow>
   list_all (\<lambda>i. i < length (communicationMethods st) \<and> enabled (communicationMethods st ! i)) is \<Longrightarrow>
   timers_ok (snd (try_methods w q is le st))"
proof (induction "is" arbitrary: le st)
  case Nil
  then show ?case by (simp add: timers_ok_cong [OF same_timing_status(1)])
next
  case (Cons i rest)
  define d where "d = fst (race (invoke (func (communicationMethods st ! i)) w (request_of q st)))"
  define st2 where "st2 = await d (updateMethodStatus (trying st i) st)"
  have "timers_ok (updateMethodStatus (trying st i) st)"
    using Cons.prems(1) by (simp add: timers_ok_cong [OF same_timing_status(1)])
  then have ok2: "timers_ok st2"
    unfolding st2_def by (rule timers_ok_await)
  have en2: "enabled (communicationMethods st ! j) \<Longrightarrow> enabled (communicationMethods st2 ! j)" for j
    by (simp add: st2_def await_enabled)
  have len2: "length (communicationMethods st2) = length (communicationMethods st)"
    by (simp add: st2_def)
  show ?case
  proof (cases "attempt w q st i")
    case (Inr answer)
    have "same_timing (updateMethodStatus ([9989] @ S '' Conectado via '' @ name (communicationMethods st ! i))
             (st2\<lparr>lastUsedMethod := name (communicationMethods st ! i)\<rparr>)) st2"
      by (rule same_timing_trans [OF same_timing_status(1) same_timing_status(2)])
    from timers_ok_cong [OF this] ok2 Inr show ?thesis
      by (simp add: try_methods_step d_def [symmetric] st2_def [symmetric])
  next
    case (Inl message)
    from Cons.prems have i: "i < length (communicationMethods st)" "enabled (communicationMethods st ! i)"
      and rest: "distinct rest" "i \<notin> set rest"
      and all: "list_all (\<lambda>i. i < length (communicationMethods st) \<and> enabled (communicationMethods st ! i)) rest"
      by simp_all
    have ok3: "timers_ok (on_failure i st2)"
      using ok2 i en2 by (intro timers_ok_on_failure) (simp_all add: len2)
    have all3: "list_all (\<lambda>j. j < length (communicationMethods (on_failure i st2))
        \<and> enabled (communicationMethods (on_failure i st2) ! j)) rest"
      using all rest(2) en2 by (auto simp: list_all_iff on_failure_enabled len2)
    from Cons.IH [OF ok3 rest(1) all3, of "Some message"] Inl show ?thesis
      by (simp add: try_methods_step d_def [symmetric] st2_def [symmetric])
  qed
qed

lemma sendMessageWithFallback_timers_ok:
  "timers_ok st \<Longrightarrow> timers_ok (snd (sendMessageWithFallback w q st))"
  unfolding sendMessageWithFallback_def
  by (rule try_methods_timers_ok)
     (simp_all add: enabledMethods_distinct list_all_iff enabledMethods_set)

lemma pass_append: "pass st (xs @ ys) = pass (pass st xs) ys"
proof (induction xs arbitrary: st)
  case Nil
  show ?case by simp
next
  case (Cons x xs)
  then show ?case by (cases x) simp_all
qed

lemma call_ticks_failed:
  "list_all (\<lambda>j. isl (attempt w q st j)) pre \<Longrightarrow>
     call_ticks w q st (pre @ rest)
       = concat (map (\<lambda>j. [Wait (duration w q st j), Fails j]) pre) @ call_ticks w q st rest"
  by (induction pre) (auto simp: duration_def split: sum.splits)

lemma elapsed_failed:
  "elapsed (concat (map (\<lambda>j. [Wait (d j), Fails j]) pre)) = sum_list (map d pre)"
  by (induction pre) simp_all

lemma call_ticks_fails: "list_ex (fails i) (call_ticks w q st is) \<Longrightarrow> i \<in> set is"
  by (induction "is") (auto split: sum.splits)

lemma failing_prefix:
  assumes "timers_ok st" and "distinct (pre @ rest)"
    and "\<forall>j \<in> set (pre @ rest). j < length (communicationMethods st) \<and> enabled (communicationMethods st ! j)"
  shows "timers_ok (pass st (concat (map (\<lambda>j. [Wait (d j), Fails j]) pre)))
     \<and> length (communicationMethods (pass st (concat (map (\<lambda>j. [Wait (d j), Fails j]) pre))))
         = length (communicationMethods st)
     \<and> (\<forall>k \<in> set rest. enabled (communicationMethods (pass st (concat (map (\<lambda>j. [Wait (d j), Fails j]) pre))) ! k))"
  using assms
proof (induction pre arbitrary: st)
  case Nil
  then show ?case by simp
next
  case (Cons j pre)
  let ?s = "on_failure j (await (d j) st)"
  from Cons.prems have j: "j < length (communicationMethods st)" "enabled (communicationMethods st ! j)"
    and nj: "j \<notin> set (pre @ rest)" and dist: "distinct (pre @ rest)"
    and all: "\<forall>k \<in> set (pre @ rest). k < length (communicationMethods st) \<and> enabled (communicationMethods st ! k)"
    by simp_all
  have ok: "timers_ok ?s"
    using Cons.prems(1) j by (intro timers_ok_on_failure timers_ok_await) (simp_all add: await_enabled)
  have all': "\<forall>k \<in> set (pre @ rest). k < length (communicationMethods ?s) \<and> enabled (communicationMethods ?s ! k)"
    using all nj by (auto simp: on_failure_enabled await_enabled)
  from Cons.IH [OF ok dist all'] show ?case by simp
qed


lemma same_timing_selection:
  "same_timing st st' \<Longrightarrow> enabledMethods st = enabledMethods st' \<and> now st = now st'
     \<and> communicationMethods st = communicationMethods st'"
  by (simp add: same_timing_def enabledMethods_def)

lemma race_lost:
  "RACE_TIMEOUT \<le> fst (invoke (func (communicationMethods st ! i)) w (request_of q st)) \<Longrightarrow>
     attempt w q st i = Inl (S ''Timeout geral'') \<and> duration w q st i = RACE_TIMEOUT"
  by (simp add: attempt_def duration_def race_def)

lemma failure_cools_down:
  assumes ok: "timers_ok st"
    and en: "enabledMethods st = pre @ i # post"
    and pre: "list_all (\<lambda>j. isl (attempt w q st j)) pre"
    and i: "isl (attempt w q st i)"
    and ts: "\<not> list_ex (fails i) ts"
  shows "cooling (now st + sum_list (map (duration w q st) (pre @ [i])) + COOLDOWN) i
           (pass (snd (sendMessageWithFallback w q st)) ts)"
proof -
  let ?A = "concat (map (\<lambda>j. [Wait (duration w q st j), Fails j]) pre)"
  let ?R = "call_ticks w q st post"
  let ?s = "await (duration w q st i) (pass st ?A)"
  have dist: "distinct (pre @ i # post)"
    using enabledMethods_distinct [of st] unfolding en .
  have all: "\<forall>j \<in> set (pre @ i # post). j < length (communicationMethods st) \<and> enabled (communicationMethods st ! j)"
    unfolding en [symmetric] by (simp add: enabledMethods_set)
  from failing_prefix [OF ok dist all, of "duration w q st"]
  have okA: "timers_ok (pass st ?A)"
    and lenA: "length (communicationMethods (pass st ?A)) = length (communicationMethods st)"
    and enA: "enabled (communicationMethods (pass st ?A) ! i)"
    by simp_all
  have oks: "timers_ok ?s" using okA by (rule timers_ok_await)
  have ens: "enabled (communicationMethods ?s ! i)" using enA by (simp add: await_enabled)
  have lens: "i < length (communicationMethods ?s)" using all lenA by simp
  have idl: "idle i ?s" using oks ens by (rule timers_ok_idle)
  have nows: "now ?s = now st + sum_list (map (duration w q st) (pre @ [i]))"
    by (simp add: now_pass elapsed_failed)
  have nf: "\<not> list_ex (fails i) (?R @ ts)"
    using ts call_ticks_fails [of i w q st post] dist by auto
  have c: "cooling (now ?s + COOLDOWN) i (pass (on_failure i ?s) (?R @ ts))"
    using lens idl nf by (intro cooling_pass cooling_start)
  have ticks: "call_ticks w q st (pre @ i # post) = ?A @ [Wait (duration w q st i), Fails i] @ ?R"
    using i by (auto simp: call_ticks_failed [OF pre] duration_def split: sum.splits)
  have "pass st (call_ticks w q st (enabledMethods st) @ ts) = pass (on_failure i ?s) (?R @ ts)"
    unfolding en ticks by (simp add: pass_append)
  moreover have "same_timing (pass (snd (sendMessageWithFallback w q st)) ts)
      (pass st (call_ticks w q st (enabledMethods st) @ ts))"
    unfolding pass_append [of st] by (rule same_timing_pass) (rule sendMessageWithFallback_ticks)
  ultimately have st: "same_timing (pass (snd (sendMessageWithFallback w q st)) ts)
      (pass (on_failure i ?s) (?R @ ts))"
    by simp
  from c show ?thesis
    unfolding nows using st by (simp add: cooling_def same_timing_def idle_def)
qed

lemma cooling_enabled:
  "cooling t i st \<Longrightarrow> enabled (communicationMethods st ! i) = (t \<le> now st)"
  unfolding cooling_def by (cases "now st < t") auto

text \<open>
  Claim C4. An attempt that loses the race against the 16 s timer fails, with the error
  \<open>Timeout geral\<close>. Let a call of \<open>sendMessageWithFallback\<close> start in a state whose timers
  are in order (as in every reachable state, by \<open>timers_ok_new\<close>, \<open>timers_ok_await\<close> and
  \<open>sendMessageWithFallback_timers_ok\<close>), and let the attempt on method \<open>i\<close> fail in that
  call, the methods selected before it having failed too. The failure of \<open>i\<close> comes when
  the attempts up to it have taken their time. From the end of the call on, however the
  widget goes on (time passing, other methods failing) while \<open>i\<close> does not fail again, the
  flag \<open>enabled\<close> of \<open>i\<close> is true, and \<open>i\<close> is among \<open>enabledMethods\<close>, exactly when 30000 ms
  have passed since its failure.
\<close>

theorem failed_method_cools_down:
  "(RACE_TIMEOUT \<le> fst (invoke (func (communicationMethods st ! i)) w (request_of q st)) \<longrightarrow>
      attempt w q st i = Inl (S ''Timeout geral''))
   \<and> (timers_ok st \<and> enabledMethods st = pre @ i # post
       \<and> list_all (\<lambda>j. isl (attempt w q st j)) pre \<and> isl (attempt w q st i)
       \<and> \<not> list_ex (fails i) ts \<longrightarrow>
      COOLDOWN = 30000
      \<and> enabled (communicationMethods (pass (snd (sendMessageWithFallback w q st)) ts) ! i)
          = (now st + sum_list (map (duration w q st) (pre @ [i])) + COOLDOWN
               \<le> now (pass (snd (sendMessageWithFallback w q st)) ts))
      \<and> (i \<in> set (enabledMethods (pass (snd (sendMessageWithFallback w q st)) ts)))
          = (now st + sum_list (map (duration w q st) (pre @ [i])) + COOLDOWN
               \<le> now (pass (snd (sendMessageWithFallback w q st)) ts)))"
proof (intro conjI impI)
  assume "RACE_TIMEOUT \<le> fst (invoke (func (communicationMethods st ! i)) w (request_of q st))"
  then show "attempt w q st i = Inl (S ''Timeout geral'')" by (simp add: race_lost)
next
  assume "timers_ok st \<and> enabledMethods st = pre @ i # post
       \<and> list_all (\<lambda>j. isl (attempt w q st j)) pre \<and> isl (attempt w q st i)
       \<and> \<not> list_ex (fails i) ts"
  then show "COOLDOWN = 30000" by (simp add: COOLDOWN_def)
next
  assume "timers_ok st \<and> enabledMethods st = pre @ i # post
       \<and> list_all (\<lambda>j. isl (attempt w q st j)) pre \<and> isl (attempt w q st i)
       \<and> \<not> list_ex (fails i) ts"
  then have "cooling (now st + sum_list (map (duration w q st) (pre @ [i])) + COOLDOWN) i
           (pass (snd (sendMessageWithFallback w q st)) ts)"
    by (intro failure_cools_down) simp_all
  then show "enabled (communicationMethods (pass (snd (sendMessageWithFallback w q st)) ts) ! i)
          = (now st + sum_list (map (duration w q st) (pre @ [i])) + COOLDOWN
               \<le> now (pass (snd (sendMessageWithFallback w q st)) ts))"
    by (rule cooling_enabled)
next
  assume "timers_ok st \<and> enabledMethods st = pre @ i # post
       \<and> list_all (\<lambda>j. isl (attempt w q st j)) pre \<and> isl (attempt w q st i)
       \<and> \<not> list_ex (fails i) ts"
  then have "cooling (now st + sum_list (map (duration w q st) (pre @ [i])) + COOLDOWN) i
           (pass (snd (sendMessageWithFallback w q st)) ts)"
    by (intro failure_cools_down) simp_all
  then show "(i \<in> set (enabledMethods (pass (snd (sendMessageWithFallback w q st)) ts)))
          = (now st + sum_list (map (duration w q st) (pre @ [i])) + COOLDOWN
               \<le> now (pass (snd (sendMessageWithFallback w q st)) ts))"
    by (rule cooling_selected)
qed


lemma all_failed_now:
  assumes "list_all (\<lambda>j. isl (attempt w q st j)) (enabledMethods st)"
  shows "now (snd (sendMessageWithFallback w q st))
           = now st + sum_list (map (duration w q st) (enabledMethods st))"
proof -
  from call_ticks_failed [OF assms, of "[]"]
  have "elapsed (call_ticks w q st (enabledMethods st)) = sum_list (map (duration w q st) (enabledMethods st))"
    by (simp add: elapsed_failed)
  with sendMessageWithFallback_ticks [of w q st] show ?thesis
    by (simp add: same_timing_def now_pass)
qed

lemma silent_durations:
  "duration silent_world q (new_visual :: nat visual) 0 = 15000"
  "duration silent_world q (new_visual :: nat visual) 1 = 15000"
  "duration silent_world q (new_visual :: nat visual) 2 = 15000"
  "duration silent_world q (new_visual :: nat visual) 3 = 16000"
  "fst (invoke (func (communicationMethods (new_visual :: nat visual) ! 3)) silent_world
         (request_of q new_visual)) = 17000"
  by (simp_all add: duration_def new_visual_def initializeCommunicationMethods_def invoke_def
      sendViaJSONP_def sendViaIframe_def sendViaSSE_def sendViaPixel_def silent_world_def silent_pixel
      race_def RACE_TIMEOUT_def ADAPTER_TIMEOUT_def)

text \<open>
  In a world where no transport answers, the pixel method is tried last and loses the
  race, 61000 ms after the start of the call; it is selected again 30000 ms after the call
  has ended, and not a millisecond before.
\<close>

theorem failed_method_cools_down_witness:
  "RACE_TIMEOUT \<le> fst (invoke (func (communicationMethods (new_visual :: nat visual) ! 3)) silent_world
                        (request_of (S ''oi'') new_visual))
   \<and> attempt silent_world (S ''oi'') (new_visual :: nat visual) 3 = Inl (S ''Timeout geral'')
   \<and> now (snd (sendMessageWithFallback silent_world (S ''oi'') (new_visual :: nat visual))) = 61000
   \<and> \<not> enabled (communicationMethods
                   (snd (sendMessageWithFallback silent_world (S ''oi'') (new_visual :: nat visual))) ! 3)
   \<and> 3 \<notin> set (enabledMethods
                 (pass (snd (sendMessageWithFallback silent_world (S ''oi'') (new_visual :: nat visual)))
                    [Wait 29999]))
   \<and> 3 \<in> set (enabledMethods
                 (pass (snd (sendMessageWithFallback silent_world (S ''oi'') (new_visual :: nat visual)))
                    [Wait 30000]))"
proof -
  let ?q = "S ''oi''"
  let ?st = "new_visual :: nat visual"
  let ?st' = "snd (sendMessageWithFallback silent_world ?q ?st)"
  have lost: "RACE_TIMEOUT \<le> fst (invoke (func (communicationMethods ?st ! 3)) silent_world (request_of ?q ?st))"
    by (simp add: silent_durations RACE_TIMEOUT_def)
  have ok: "timers_ok ?st" by (rule timers_ok_new)
  have en: "enabledMethods ?st = [0, 1, 2] @ 3 # []" by (simp add: new_visual_enabledMethods)
  have pre: "list_all (\<lambda>j. isl (attempt silent_world ?q ?st j)) [0, 1, 2]"
    by (simp add: silent_attempts del: One_nat_def)
  have i: "isl (attempt silent_world ?q ?st 3)" by (simp add: silent_attempts)
  have all: "list_all (\<lambda>j. isl (attempt silent_world ?q ?st j)) (enabledMethods ?st)"
    by (simp add: new_visual_enabledMethods silent_attempts del: One_nat_def)
  have n0: "now ?st = 0" by (simp add: new_visual_def)
  have n: "now ?st' = 61000"
    using all_failed_now [OF all]
    by (simp add: n0 new_visual_enabledMethods silent_durations del: One_nat_def)
  have sum: "sum_list (map (duration silent_world ?q ?st) ([0, 1, 2] @ [3])) = 61000"
    by (simp add: silent_durations del: One_nat_def)
  note t = failed_method_cools_down [of ?st 3 silent_world ?q "[0, 1, 2]" "[]"]
  from t [of "[]"] lost have a: "attempt silent_world ?q ?st 3 = Inl (S ''Timeout geral'')" by blast
  from t [of "[]"] ok en pre i
  have b: "\<not> enabled (communicationMethods ?st' ! 3)"
    unfolding sum by (simp add: n n0 COOLDOWN_def del: One_nat_def)
  from t [of "[Wait 29999]"] ok en pre i
  have c: "3 \<notin> set (enabledMethods (pass ?st' [Wait 29999]))"
    unfolding sum now_pass by (simp add: n n0 COOLDOWN_def del: One_nat_def)
  from t [of "[Wait 30000]"] ok en pre i
  have d: "3 \<in> set (enabledMethods (pass ?st' [Wait 30000]))"
    unfolding sum now_pass by (simp add: n n0 COOLDOWN_def del: One_nat_def)
  from lost a n b c d show ?thesis by (intro conjI)
qed
section \<open>Properties of the rule-based answer generators\<close>









section \<open>Properties of the Backend Proxies\<close>

lemma starts_with_iff: "starts_with h n = (\<exists>s. h = n @ s)"
  by (induction h n rule: starts_with.induct) auto

lemma str_includes_iff: "str_includes h n = (\<exists>p s. h = p @ n @ s)"
proof (induction h)
  case Nil
  show ?case by auto
next
  case (Cons x h)
  show ?case
  proof
    assume "str_includes (x # h) n"
    then consider "starts_with (x # h) n" | "str_includes h n" by auto
    then show "\<exists>p s. x # h = p @ n @ s"
    proof cases
      case 1
      then obtain s where "x # h = n @ s" by (auto simp: starts_with_iff)
      then have "x # h = [] @ n @ s" by simp
      then show ?thesis by blast
    next
      case 2
      with Cons.IH obtain p s where "h = p @ n @ s" by blast
      then have "x # h = (x # p) @ n @ s" by simp
      then show ?thesis by blast
    qed
  next
    assume "\<exists>p s. x # h = p @ n @ s"
    then obtain p s where e: "x # h = p @ n @ s" by blast
    show "str_includes (x # h) n"
    proof (cases p)
      case Nil
      with e have "starts_with (x # h) n" by (auto simp: starts_with_iff)
      then show ?thesis by simp
    next
      case (Cons y p')
      with e have "h = p' @ n @ s" by simp
      with Cons.IH have "str_includes h n" by blast
      then show ?thesis by simp
    qed
  qed
qed

lemma str_includes_here: "str_includes (n @ s) n"
  unfolding str_includes_iff by (rule exI [of _ "[]"]) simp

lemma str_includes_later: "str_includes t n \<Longrightarrow> str_includes (a @ t) n"
  unfolding str_includes_iff
proof -
  assume "\<exists>p s. t = p @ n @ s"
  then obtain p s where "t = p @ n @ s" by blast
  then have "a @ t = (a @ p) @ n @ s" by simp
  then show "\<exists>p s. a @ t = p @ n @ s" by blast
qed

lemma str_includes_length: "str_includes h n \<Longrightarrow> length n \<le> length h"
  unfolding str_includes_iff by auto

lemma str_includes_set: "str_includes h n \<Longrightarrow> set n \<subseteq> set h"
  unfolding str_includes_iff by auto

lemma after_Inr: "(after r f = Inr y) = (\<exists>x. r = Inr x \<and> f x = Inr y)"
  by (cases r) (simp_all add: after_def)

lemma after_Inl: "(after r f = Inl e) = (r = Inl e \<or> (\<exists>x. r = Inr x \<and> f x = Inl e))"
  by (cases r) (simp_all add: after_def)

lemma show_nat_nonempty: "show_nat n \<noteq> []"
  by (subst show_nat.simps) simp

declare show_nat.simps [simp del]




lemma object_keys_Inl: "(object_keys v = Inl m) = (v = JNull \<and> m = null_to_object)"
  by (cases v) (auto simp: object_keys_def after_def)

lemma smart_totals_Inr:
  assumes "smart_totals question ctx has_data row_count = Inr a"
  shows "a \<noteq> []" and "str_includes a question" and "has_data \<Longrightarrow> str_includes a row_count"
proof -
  from assms obtain tail where
    a: "a = [55357, 56522] @ S '' **AN'' @ [193] @ S ''LISE DE TOTAIS via JSONP**'' @ [10] @ S ''    ''
               @ [10, 9989] @ S '' **Status:** ''
               @ (if has_data then row_count @ S '' registros processados''
                  else S ''Nenhum dado dispon'' @ [237] @ S ''vel'')
               @ [10, 55357, 56589] @ S '' **Pergunta:** '' @ question
               @ [10, 55357, 56481] @ S '' **Sugest'' @ [227] @ S ''o:** ''
               @ (if has_data then S ''Use SUM() nas colunas num'' @ [233] @ S ''ricas para calcular totais''
                  else S ''Adicione dados num'' @ [233] @ S ''ricos ao visual'')
               @ [10, 10] @ tail"
    unfolding smart_totals_def after_Inr by auto
  show "a \<noteq> []" unfolding a by simp
  show "str_includes a question"
    unfolding a by (rule str_includes_here | rule str_includes_later)+
  show "str_includes a row_count" if "has_data"
    unfolding a using that
    by (simp only: if_True append_assoc) ((rule str_includes_here | rule str_includes_later)+)
qed

lemma smart_totals_Inl:
  "smart_totals question ctx has_data row_count = Inl m \<Longrightarrow>
     has_data \<and> nonempty_array ctx \<and> elements ctx ! 0 = JNull \<and> m = null_to_object"
  unfolding smart_totals_def after_Inl nonempty_array_def
  by (auto simp: object_keys_Inl after_Inl split: if_splits)

lemma smart_doctors_facts:
  "smart_doctors pf question ctx has_data row_count \<noteq> []"
  "str_includes (smart_doctors pf question ctx has_data row_count) question"
  "str_includes (smart_doctors pf question ctx has_data row_count) row_count"
proof -
  show "smart_doctors pf question ctx has_data row_count \<noteq> []"
    unfolding smart_doctors_def by simp
  show "str_includes (smart_doctors pf question ctx has_data row_count) question"
    unfolding smart_doctors_def by (rule str_includes_here | rule str_includes_later)+
  show "str_includes (smart_doctors pf question ctx has_data row_count) row_count"
    unfolding smart_doctors_def by (rule str_includes_here | rule str_includes_later)+
qed

lemma smart_sales_facts:
  "smart_sales question has_data row_count \<noteq> []"
  "str_includes (smart_sales question has_data row_count) question"
  "str_includes (smart_sales question has_data row_count) row_count"
proof -
  show "smart_sales question has_data row_count \<noteq> []"
    unfolding smart_sales_def by simp
  show "str_includes (smart_sales question has_data row_count) question"
    unfolding smart_sales_def by (rule str_includes_here | rule str_includes_later)+
  show "str_includes (smart_sales question has_data row_count) row_count"
    unfolding smart_sales_def by (rule str_includes_here | rule str_includes_later)+
qed

lemma smart_generic_facts:
  "smart_generic question ctx has_data row_count \<noteq> []"
  "str_includes (smart_generic question ctx has_data row_count) question"
  "has_data \<Longrightarrow> str_includes (smart_generic question ctx has_data row_count) row_count"
proof -
  show "smart_generic question ctx has_data row_count \<noteq> []"
    unfolding smart_generic_def by simp
  show "str_includes (smart_generic question ctx has_data row_count) question"
    unfolding smart_generic_def by (rule str_includes_here | rule str_includes_later)+
  show "str_includes (smart_generic question ctx has_data row_count) row_count" if "has_data"
    unfolding smart_generic_def using that
    by (simp only: if_True append_assoc) ((rule str_includes_here | rule str_includes_later)+)
qed

lemma generateSmartFallback_cases:
  obtains
    (totals) "generateSmartFallback pf question ctx has_data row_count
                = smart_totals question ctx has_data row_count"
  | (doctors) "generateSmartFallback pf question ctx has_data row_count
                = Inr (smart_doctors pf question ctx has_data row_count)"
  | (sales) "generateSmartFallback pf question ctx has_data row_count
                = Inr (smart_sales question has_data row_count)"
  | (generic) "generateSmartFallback pf question ctx has_data row_count
                = Inr (smart_generic question ctx has_data row_count)"
proof -
  define c1 where "c1 = (str_includes (toLowerCase pf question) (S ''total'')
      \<or> str_includes (toLowerCase pf question) (S ''soma'') \<or> str_includes (toLowerCase pf question) (S ''sum''))"
  define c2 where "c2 = (str_includes (toLowerCase pf question) (S ''m'' @ [233] @ S ''dico'')
      \<or> str_includes (toLowerCase pf question) (S ''doctor'')
      \<or> str_includes (toLowerCase pf question) (S ''quantidade''))"
  define c3 where "c3 = (str_includes (toLowerCase pf question) (S ''vendas'')
      \<or> str_includes (toLowerCase pf question) (S ''receita'') \<or> str_includes (toLowerCase pf question) (S ''sales''))"
  have g: "generateSmartFallback pf question ctx has_data row_count =
      (if c1 then smart_totals question ctx has_data row_count
       else if c2 then Inr (smart_doctors pf question ctx has_data row_count)
       else if c3 then Inr (smart_sales question has_data row_count)
       else Inr (smart_generic question ctx has_data row_count))"
    unfolding generateSmartFallback_def Let_def c1_def c2_def c3_def ..
  show thesis
  proof (cases c1)
    case True
    with g show ?thesis by (intro totals) simp
  next
    case n1: False
    show ?thesis
    proof (cases c2)
      case True
      with g n1 show ?thesis by (intro doctors) simp
    next
      case n2: False
      show ?thesis
      proof (cases c3)
        case True
        with g n1 n2 show ?thesis by (intro sales) simp
      next
        case False
        with g n1 n2 show ?thesis by (intro generic) simp
      qed
    qed
  qed
qed

lemma generateSmartFallback_Inr:
  assumes r: "generateSmartFallback pf question ctx has_data row_count = Inr a"
  shows "a \<noteq> [] \<and> str_includes a question \<and> (has_data \<longrightarrow> str_includes a row_count)"
proof (cases rule: generateSmartFallback_cases [of pf question ctx has_data row_count])
  case totals
  with r have "smart_totals question ctx has_data row_count = Inr a" by simp
  from smart_totals_Inr [OF this] show ?thesis
    by (intro conjI impI)
next
  case doctors
  with r have e: "a = smart_doctors pf question ctx has_data row_count" by simp
  show ?thesis unfolding e
    by (intro conjI impI) (rule smart_doctors_facts)+
next
  case sales
  with r have e: "a = smart_sales question has_data row_count" by simp
  show ?thesis unfolding e
    by (intro conjI impI) (rule smart_sales_facts)+
next
  case generic
  with r have e: "a = smart_generic question ctx has_data row_count" by simp
  show ?thesis unfolding e
    by (intro conjI impI) (rule smart_generic_facts, assumption?)+
qed

lemma generateSmartFallback_Inl:
  assumes r: "generateSmartFallback pf question ctx has_data row_count = Inl m"
  shows "has_data \<and> nonempty_array ctx \<and> elements ctx ! 0 = JNull \<and> m = null_to_object"
proof (cases rule: generateSmartFallback_cases [of pf question ctx has_data row_count])
  case totals
  with r have "smart_totals question ctx has_data row_count = Inl m" by simp
  then show ?thesis by (rule smart_totals_Inl)
next
  case doctors
  with r show ?thesis by simp
next
  case sales
  with r show ?thesis by simp
next
  case generic
  with r show ?thesis by simp
qed

lemma gave_up_raced: "gave_up limit ex \<Longrightarrow> isl (raced limit ex)"
  by (auto simp: gave_up_def raced_def)







lemma chat_jsonp_fallback:
  "gave_up 5000 (jsonp_exchange pf env ev) \<Longrightarrow>
   generateSmartFallback pf (jsonp_question ev) (jsonp_context pf ev) (jsonp_has_data ev) (jsonp_row_count pf ev) = Inr a \<Longrightarrow>
     snd (body (fst (chat_jsonp pf env ev)))
       = \<lparr>p_error = Missing, p_answer = Some a, p_method = S ''JSONP_FALLBACK''\<rparr>"
  by (drule gave_up_raced, cases "raced 5000 (jsonp_exchange pf env ev)")
     (simp_all add: chat_jsonp_def Let_def)

lemma chat_jsonp_recovery:
  "gave_up 5000 (jsonp_exchange pf env ev) \<Longrightarrow>
   generateSmartFallback pf (jsonp_question ev) (jsonp_context pf ev) (jsonp_has_data ev) (jsonp_row_count pf ev) = Inl m \<Longrightarrow>
     p_method (snd (body (fst (chat_jsonp pf env ev)))) = S ''JSONP_ERROR''
     \<and> p_error (snd (body (fst (chat_jsonp pf env ev)))) = Flag True"
  by (drule gave_up_raced, cases "raced 5000 (jsonp_exchange pf env ev)")
     (simp_all add: chat_jsonp_def Let_def)










lemma chat_gave_up:
  assumes m: "httpMethod ev \<noteq> S ''OPTIONS''" and q: "chat_question pf ev = Inr q" and ne: "q \<noteq> []"
    and g: "gave_up COPILOT_TIMEOUT (chat_exchange pf env ev q)"
  shows "response (chat pf env ev) =
     (case generateIntelligentFallback pf q (chat_context pf ev) of
        Inr answer \<Rightarrow>
          \<lparr>statusCode = 200,
           body = Some \<lparr>p_error = Missing, p_answer = Some answer, p_method = S ''FALLBACK''\<rparr>\<rparr>
      | Inl message \<Rightarrow> recovery message)"
proof -
  from g have "isl (raced COPILOT_TIMEOUT (chat_exchange pf env ev q))" by (rule gave_up_raced)
  then obtain e where r: "raced COPILOT_TIMEOUT (chat_exchange pf env ev q) = Inl e"
    by (cases "raced COPILOT_TIMEOUT (chat_exchange pf env ev q)") simp_all
  show ?thesis
    using m ne by (simp add: chat_def q r Let_def or_default_def split: sum.splits)
qed



lemma param_query: "param (query ps) k = map_of ps k"
  by (simp add: param_def query_def)

lemma oi_lower: "toLowerCase plain_platform (S ''oi'') = S ''oi''"
  by (simp add: plain_platform_def S_def lower_unit_def)









lemma query_method: "httpMethod (query ps) \<noteq> S ''OPTIONS''"
  by (simp add: query_def S_def)








lemma oi_general: "analyse (S ''oi'') questionTypes = (S ''general'', [])"
  by (simp add: questionTypes_def mentions_def S_def)


lemma general_answer:
  "generateIntelligentFallback plain_platform (S ''oi'') ctx = intelligent_general (S ''oi'') ctx"
  by (simp add: generateIntelligentFallback_def Let_def oi_lower oi_general)
    (simp add: S_def)








lemma forwarded_fast:
  "m \<in> set (forwarded (sendToCopilotFast pf env q ctx)) \<Longrightarrow> prepareQuickMessage pf q ctx = Inr m"
  by (auto simp: sendToCopilotFast_def split: option.splits prod.splits sum.splits if_splits)

lemma forwarded_optimized:
  "m \<in> set (forwarded (sendToCopilotOptimized pf env q ctx)) \<Longrightarrow> prepareOptimizedMessage pf q ctx = Inr m"
  by (auto simp: sendToCopilotOptimized_def split: option.splits prod.splits sum.splits if_splits)

lemma prepareQuickMessage_includes:
  assumes "prepareQuickMessage pf q ctx = Inr m"
  shows "str_includes m q"
proof (cases "\<not> isArray ctx \<or> length (elements ctx) = 0")
  case True
  with assms have "m = S ''RESPOSTA R'' @ [193] @ S ''PIDA: '' @ [34] @ q @ [34] @ S '' - Sem dados Power BI.''"
    by (simp add: prepareQuickMessage_def)
  then show ?thesis by (simp only:) ((rule str_includes_here | rule str_includes_later)+)
next
  case False
  with assms obtain keys :: "jsstring list" where
    "m = S ''AN'' @ [193] @ S ''LISE R'' @ [193] @ S ''PIDA Power BI:'' @ [10] @ S ''Pergunta: '' @ [34]
               @ q
               @ [34, 10] @ S ''Dados: '' @ show_nat (length (elements ctx))
               @ S '' registros'' @ [10] @ S ''Colunas: '' @ join (S '', '') (take 3 keys)
               @ [10] @ S ''Exemplo: '' @ JSON_stringify pf (elements ctx ! 0)
               @ [10] @ S ''RESPONDA DE FORMA CONCISA.''"
    by (auto simp: prepareQuickMessage_def after_Inr)
  then show ?thesis by (simp only:) ((rule str_includes_here | rule str_includes_later)+)
qed

lemma prepareOptimizedMessage_includes:
  assumes "prepareOptimizedMessage pf q ctx = Inr m"
  shows "str_includes m q"
proof (cases "\<not> isArray ctx \<or> length (elements ctx) = 0")
  case True
  with assms have "m = S ''Pergunta r'' @ [225] @ S ''pida: '' @ [34] @ q @ [34] @ S '' - Sem dados do Power BI.''"
    by (simp add: prepareOptimizedMessage_def)
  then show ?thesis by (simp only:) ((rule str_includes_here | rule str_includes_later)+)
next
  case False
  with assms obtain keys :: "jsstring list" where
    "m = S ''AN'' @ [193] @ S ''LISE R'' @ [193] @ S ''PIDA:'' @ [10] @ S ''Pergunta: '' @ [34] @ q
               @ [34, 10] @ S ''Dados: '' @ show_nat (length (elements ctx))
               @ S '' registros'' @ [10] @ S ''Colunas: '' @ join (S '', '') (take 5 keys)
               @ [10] @ S ''Amostra: '' @ JSON_stringify pf (or_object (elements ctx ! 0))
               @ [10] @ S ''RESPONDA DE FORMA CONCISA E DIRETA.''"
    by (auto simp: prepareOptimizedMessage_def after_Inr)
  then show ?thesis by (simp only:) ((rule str_includes_here | rule str_includes_later)+)
qed

lemma chat_sent:
  "m \<in> set (sent (chat pf env ev)) \<Longrightarrow>
     \<exists>q. chat_question pf ev = Inr q \<and> prepareOptimizedMessage pf q (chat_context pf ev) = Inr m"
  by (auto simp: chat_def Let_def chat_exchange_def dest: forwarded_optimized
      split: if_splits sum.splits)

lemma chat_jsonp_sent:
  "m \<in> set (snd (chat_jsonp pf env ev)) \<Longrightarrow>
     prepareQuickMessage pf (jsonp_question ev) (jsonp_context pf ev) = Inr m"
  by (auto simp: chat_jsonp_def Let_def jsonp_exchange_def dest: forwarded_fast)

lemma chat_question_cut:
  "decodeURIComponent pf (param_or ev (S ''question'') []) = Inr d \<Longrightarrow>
     chat_question pf ev = Inr (take 500 d)"
  by (simp add: chat_question_def after_def)

lemma chat_question_length: "chat_question pf ev = Inr q \<Longrightarrow> length q \<le> 500"
  by (auto simp: chat_question_def after_Inr)

lemma chat_same_question:
  assumes "httpMethod ev = httpMethod ev'"
    and "param ev (S ''context'') = param ev' (S ''context'')"
    and "chat_question pf ev = chat_question pf ev'"
  shows "chat pf env ev = chat pf env ev'"
proof -
  from assms(2) have "chat_context pf ev = chat_context pf ev'" by (simp add: chat_context_def)
  with assms(1,3) show ?thesis by (simp add: chat_def chat_exchange_def cong: sum.case_cong if_cong)
qed

lemma mute_optimized:
  assumes "prepareOptimizedMessage pf q ctx = Inr m"
  shows "sendToCopilotOptimized pf slow_start q ctx =
     \<lparr>settled_at = 7400, settled = Inl (S ''Polling timeout ap'' @ [243] @ S ''s 3 tentativas''),
      forwarded = [m]\<rparr>"
  by (simp add: sendToCopilotOptimized_def slow_start_def mute_backend_def fetch_def ok_def assms
      MAX_POLLING_ATTEMPTS_def POLLING_INTERVAL_def numeral_3_eq_3 botMessages_def S_def)

lemma mute_fast:
  assumes "prepareQuickMessage pf q ctx = Inr m"
  shows "sendToCopilotFast pf slow_start q ctx =
     \<lparr>settled_at = 6500, settled = Inl (S ''JSONP Polling timeout''), forwarded = [m]\<rparr>"
  by (simp add: sendToCopilotFast_def slow_start_def mute_backend_def fetch_def ok_def assms
      numeral_3_eq_3 botMessages_def S_def)


lemma asks_params:
  "httpMethod (asks q) \<noteq> S ''OPTIONS''"
  "param (asks q) (S ''context'') = None"
  "param (asks q) (S ''hasData'') = None"
  "param (asks q) (S ''rowCount'') = None"
  "param (asks q) (S ''question'') = Some q"
  by (simp_all add: asks_def query_method param_query) (simp_all add: S_def)

lemma asks_method: "httpMethod (asks q) = S ''GET''"
  by (simp add: asks_def query_def)

lemma asks_chat_context: "chat_context pf (asks q) = JObj []"
  by (simp add: chat_context_def asks_params)

lemma long_question_facts:
  "length long_question = 506" "take 500 long_question = replicate 500 97"
  "37 \<notin> set long_question" "long_question \<noteq> []" "replicate 500 (97::nat) \<noteq> []"
  by (simp_all add: long_question_def S_def)

lemma asks_long_chat_question:
  "chat_question plain_platform (asks long_question) = Inr (take 500 long_question)"
  "chat_question plain_platform (asks (take 500 long_question)) = Inr (take 500 long_question)"
proof -
  have d: "decodeURIComponent plain_platform s = (if 37 \<in> set s then Inl (S ''URI malformed'') else Inr s)" for s
    by (simp add: plain_platform_def)
  have n: "37 \<notin> set (take 500 long_question)"
    using long_question_facts(3) by (blast dest: in_set_takeD)
  show "chat_question plain_platform (asks long_question) = Inr (take 500 long_question)"
    using long_question_facts(3,4)
    by (simp add: chat_question_def param_or_def asks_params or_default_def d after_def)
  show "chat_question plain_platform (asks (take 500 long_question)) = Inr (take 500 long_question)"
    using n long_question_facts(2,5)
    by (simp add: chat_question_def param_or_def asks_params or_default_def d after_def)
qed


lemma mentions_set: "mentions h ts \<Longrightarrow> \<exists>t \<in> set ts. set t \<subseteq> set h"
  by (auto simp: mentions_def list_ex_iff dest: str_includes_set)

lemma all_a_general:
  assumes "set h \<subseteq> {97}"
  shows "analyse (toLowerCase plain_platform h) questionTypes = (S ''general'', [])"
proof -
  have l: "set (toLowerCase plain_platform h) \<subseteq> {97}"
    using assms by (auto simp: plain_platform_def lower_unit_def)
  have nm: "\<not> mentions (toLowerCase plain_platform h) ts" if "\<forall>t \<in> set ts. \<not> set t \<subseteq> {97}" for ts
    using mentions_set [of "toLowerCase plain_platform h" ts] l that by blast
  have "\<not> mentions (toLowerCase plain_platform h) ts" if "ts \<in> set (map snd questionTypes)" for ts
    using that by (intro nm) (auto simp: questionTypes_def S_def)
  then show ?thesis by (simp add: questionTypes_def)
qed

lemma no_data_general:
  "\<not> nonempty_array ctx \<Longrightarrow>
     intelligent_general q ctx =
       Inr ([55358, 56598] @ S '' **ASSISTENTE BI ATIVO** ''
            @ [9888, 65039] @ S '' Nenhum dado carregado no visual'')"
  by (simp add: intelligent_general_def)

lemma all_a_answer:
  assumes "set h \<subseteq> {97}" and "\<not> nonempty_array ctx"
  shows "generateIntelligentFallback plain_platform h ctx =
       Inr ([55358, 56598] @ S '' **ASSISTENTE BI ATIVO** ''
            @ [9888, 65039] @ S '' Nenhum dado carregado no visual'')"
  using assms(2)
  by (simp add: generateIntelligentFallback_def Let_def all_a_general [OF assms(1)] no_data_general)
    (simp add: S_def)

lemma no_rows: "\<not> nonempty_array (JObj [])" "\<not> isArray (JObj [])"
  by (simp_all add: nonempty_array_def isArray_def)

lemma slow_start_chat:
  assumes q: "chat_question pf (asks x) = Inr q" and ne: "q \<noteq> []"
  shows "sent (chat pf slow_start (asks x))
           = [S ''Pergunta r'' @ [225] @ S ''pida: '' @ [34] @ q @ [34] @ S '' - Sem dados do Power BI.'']"
    and "timeout_fired (chat pf slow_start (asks x))"
    and "response (chat pf slow_start (asks x)) =
           (case generateIntelligentFallback pf q (JObj []) of
              Inr answer \<Rightarrow>
                \<lparr>statusCode = 200,
                 body = Some \<lparr>p_error = Missing, p_answer = Some answer, p_method = S ''FALLBACK''\<rparr>\<rparr>
            | Inl message \<Rightarrow> recovery message)"
proof -
  have p: "prepareOptimizedMessage pf q (JObj [])
       = Inr (S ''Pergunta r'' @ [225] @ S ''pida: '' @ [34] @ q @ [34] @ S '' - Sem dados do Power BI.'')"
    by (simp add: prepareOptimizedMessage_def no_rows)
  note e = mute_optimized [OF p]
  have x: "chat_exchange pf slow_start (asks x) q = sendToCopilotOptimized pf slow_start q (JObj [])"
    by (simp add: chat_exchange_def asks_chat_context)
  show "sent (chat pf slow_start (asks x))
           = [S ''Pergunta r'' @ [225] @ S ''pida: '' @ [34] @ q @ [34] @ S '' - Sem dados do Power BI.'']"
    using ne by (simp add: chat_def asks_params q Let_def x e)
  have l: "lag slow_start = 3000" "has_secret slow_start"
    by (simp_all add: slow_start_def has_secret_def S_def)
  show "timeout_fired (chat pf slow_start (asks x))"
    using ne l by (simp add: chat_def asks_params q Let_def x e MAX_EXECUTION_TIME_def COPILOT_TIMEOUT_def)
  have g: "gave_up COPILOT_TIMEOUT (chat_exchange pf slow_start (asks x) q)"
    by (simp add: gave_up_def x e)
  from chat_gave_up [OF asks_params(1) q ne g]
  show "response (chat pf slow_start (asks x)) =
           (case generateIntelligentFallback pf q (JObj []) of
              Inr answer \<Rightarrow>
                \<lparr>statusCode = 200,
                 body = Some \<lparr>p_error = Missing, p_answer = Some answer, p_method = S ''FALLBACK''\<rparr>\<rparr>
            | Inl message \<Rightarrow> recovery message)"
    by (simp add: asks_chat_context)
qed

lemma total_at_the_end:
  "mentions (toLowerCase plain_platform long_question) [S ''total'', S ''soma'', S ''sum'', S ''somar'', S ''calcular'']"
proof -
  have "toLowerCase plain_platform long_question = toLowerCase plain_platform (replicate 500 97 @ S '' '') @ S ''total''"
    by (simp add: long_question_def plain_platform_def S_def lower_unit_def)
  moreover have "str_includes (toLowerCase plain_platform (replicate 500 97 @ S '' '') @ S ''total'') (S ''total'')"
    by (rule str_includes_later) (simp add: str_includes_here [of _ "[]", simplified])
  ultimately show ?thesis by (simp add: mentions_def)
qed


lemma all_a: "set (take 500 long_question) \<subseteq> {97}"
  by (simp add: long_question_facts(2))

lemma take_take_500: "take 500 (take 500 xs) = take 500 xs"
  by simp

text \<open>
  Claim C6, as stated, fails for the main chat endpoint, the one that cuts the question.
  A question of 506 code units ends in \<open>total\<close>; the backend is given the first 500, and
  when it does not reply the fallback answer is the generic one, which does not hold the
  question: the whole result is that of the request asking the first 500 code units only.
\<close>

theorem fallback_from_cut_question_counterexample:
  "500 < length long_question
   \<and> mentions (toLowerCase plain_platform long_question)
         [S ''total'', S ''soma'', S ''sum'', S ''somar'', S ''calcular'']
   \<and> sent (chat plain_platform slow_start (asks long_question))
       = [S ''Pergunta r'' @ [225] @ S ''pida: '' @ [34] @ take 500 long_question @ [34]
          @ S '' - Sem dados do Power BI.'']
   \<and> response (chat plain_platform slow_start (asks long_question))
       = \<lparr>statusCode = 200,
          body = Some \<lparr>p_error = Missing,
                       p_answer = Some ([55358, 56598] @ S '' **ASSISTENTE BI ATIVO** ''
                                        @ [9888, 65039] @ S '' Nenhum dado carregado no visual''),
                       p_method = S ''FALLBACK''\<rparr>\<rparr>
   \<and> \<not> str_includes ([55358, 56598] @ S '' **ASSISTENTE BI ATIVO** ''
                        @ [9888, 65039] @ S '' Nenhum dado carregado no visual'') long_question
   \<and> chat plain_platform slow_start (asks long_question)
       = chat plain_platform slow_start (asks (take 500 long_question))"
proof -
  have ne: "take 500 long_question \<noteq> []" by (simp add: long_question_facts(2))
  have a: "500 < length long_question" by (simp add: long_question_facts(1))
  note b = total_at_the_end
  note c = slow_start_chat(1) [OF asks_long_chat_question(1) ne]
  have d: "response (chat plain_platform slow_start (asks long_question))
       = \<lparr>statusCode = 200,
          body = Some \<lparr>p_error = Missing,
                       p_answer = Some ([55358, 56598] @ S '' **ASSISTENTE BI ATIVO** ''
                                        @ [9888, 65039] @ S '' Nenhum dado carregado no visual''),
                       p_method = S ''FALLBACK''\<rparr>\<rparr>"
    unfolding slow_start_chat(3) [OF asks_long_chat_question(1) ne]
      all_a_answer [OF all_a no_rows(1)] by simp
  have e: "\<not> str_includes ([55358, 56598] @ S '' **ASSISTENTE BI ATIVO** ''
                        @ [9888, 65039] @ S '' Nenhum dado carregado no visual'') long_question"
    using str_includes_length [of "[55358, 56598] @ S '' **ASSISTENTE BI ATIVO** ''
                        @ [9888, 65039] @ S '' Nenhum dado carregado no visual''" long_question]
    by (auto simp: long_question_facts(1) S_def)
  have f: "chat plain_platform slow_start (asks long_question)
       = chat plain_platform slow_start (asks (take 500 long_question))"
    by (rule chat_same_question) (simp_all add: asks_method asks_params asks_long_chat_question)
  from a b c d e f show ?thesis by (intro conjI)
qed

text \<open>
  Claim C6, amended. The main chat endpoint cuts the decoded question to 500 code units
  before anything else: requests whose decoded questions agree on the first 500 code
  units (and that agree on the method and the context) have the same result; a message
  forwarded to the backend is made from the cut question, which it holds; and the fallback
  answer is generated from the cut question. chat-jsonp does not cut: a message it
  forwards, and every answer of its rule-based generator, holds the whole question.
\<close>

theorem main_endpoint_cuts_question:
  "(decodeURIComponent pf (param_or ev (S ''question'') []) = Inr d \<longrightarrow>
      chat_question pf ev = Inr (take 500 d))
   \<and> (httpMethod ev = httpMethod ev' \<and> param ev (S ''context'') = param ev' (S ''context'')
       \<and> decodeURIComponent pf (param_or ev (S ''question'') []) = Inr d
       \<and> decodeURIComponent pf (param_or ev' (S ''question'') []) = Inr d'
       \<and> take 500 d = take 500 d' \<longrightarrow>
      chat pf env ev = chat pf env ev')
   \<and> (chat_question pf ev = Inr q \<and> m \<in> set (sent (chat pf env ev)) \<longrightarrow>
      length q \<le> 500 \<and> prepareOptimizedMessage pf q (chat_context pf ev) = Inr m \<and> str_includes m q)
   \<and> (httpMethod ev \<noteq> S ''OPTIONS'' \<and> chat_question pf ev = Inr q \<and> q \<noteq> []
       \<and> gave_up COPILOT_TIMEOUT (chat_exchange pf env ev q) \<longrightarrow>
      response (chat pf env ev) =
        (case generateIntelligentFallback pf q (chat_context pf ev) of
           Inr answer \<Rightarrow>
             \<lparr>statusCode = 200,
              body = Some \<lparr>p_error = Missing, p_answer = Some answer, p_method = S ''FALLBACK''\<rparr>\<rparr>
         | Inl message \<Rightarrow> recovery message))
   \<and> (m' \<in> set (snd (chat_jsonp pf env ev)) \<longrightarrow>
      prepareQuickMessage pf (jsonp_question ev) (jsonp_context pf ev) = Inr m'
      \<and> str_includes m' (jsonp_question ev))
   \<and> (gave_up 5000 (jsonp_exchange pf env ev)
       \<and> generateSmartFallback pf (jsonp_question ev) (jsonp_context pf ev) (jsonp_has_data ev)
             (jsonp_row_count pf ev) = Inr a \<longrightarrow>
      p_answer (snd (body (fst (chat_jsonp pf env ev)))) = Some a
      \<and> str_includes a (jsonp_question ev))"
proof -
  have c1: "decodeURIComponent pf (param_or ev (S ''question'') []) = Inr d \<longrightarrow>
      chat_question pf ev = Inr (take 500 d)"
    by (simp add: chat_question_cut)
  have c2: "httpMethod ev = httpMethod ev' \<and> param ev (S ''context'') = param ev' (S ''context'')
       \<and> decodeURIComponent pf (param_or ev (S ''question'') []) = Inr d
       \<and> decodeURIComponent pf (param_or ev' (S ''question'') []) = Inr d'
       \<and> take 500 d = take 500 d' \<longrightarrow>
      chat pf env ev = chat pf env ev'"
  proof (intro impI, elim conjE)
    assume h: "httpMethod ev = httpMethod ev'" "param ev (S ''context'') = param ev' (S ''context'')"
      and d: "decodeURIComponent pf (param_or ev (S ''question'') []) = Inr d"
        "decodeURIComponent pf (param_or ev' (S ''question'') []) = Inr d'"
      and t: "take 500 d = take 500 d'"
    from chat_question_cut [OF d(1)] chat_question_cut [OF d(2)] t
    have "chat_question pf ev = chat_question pf ev'" by simp
    with h show "chat pf env ev = chat pf env ev'" by (rule chat_same_question)
  qed
  have c3: "chat_question pf ev = Inr q \<and> m \<in> set (sent (chat pf env ev)) \<longrightarrow>
      length q \<le> 500 \<and> prepareOptimizedMessage pf q (chat_context pf ev) = Inr m \<and> str_includes m q"
  proof (intro impI, elim conjE)
    assume q: "chat_question pf ev = Inr q" and m: "m \<in> set (sent (chat pf env ev))"
    from chat_sent [OF m] q have p: "prepareOptimizedMessage pf q (chat_context pf ev) = Inr m" by simp
    from chat_question_length [OF q] p prepareOptimizedMessage_includes [OF p]
    show "length q \<le> 500 \<and> prepareOptimizedMessage pf q (chat_context pf ev) = Inr m \<and> str_includes m q"
      by (intro conjI)
  qed
  have c4: "httpMethod ev \<noteq> S ''OPTIONS'' \<and> chat_question pf ev = Inr q \<and> q \<noteq> []
       \<and> gave_up COPILOT_TIMEOUT (chat_exchange pf env ev q) \<longrightarrow>
      response (chat pf env ev) =
        (case generateIntelligentFallback pf q (chat_context pf ev) of
           Inr answer \<Rightarrow>
             \<lparr>statusCode = 200,
              body = Some \<lparr>p_error = Missing, p_answer = Some answer, p_method = S ''FALLBACK''\<rparr>\<rparr>
         | Inl message \<Rightarrow> recovery message)"
    using chat_gave_up [of ev pf q env] by blast
  have c5: "m' \<in> set (snd (chat_jsonp pf env ev)) \<longrightarrow>
      prepareQuickMessage pf (jsonp_question ev) (jsonp_context pf ev) = Inr m'
      \<and> str_includes m' (jsonp_question ev)"
    using chat_jsonp_sent [of m' pf env ev]
      prepareQuickMessage_includes [of pf "jsonp_question ev" "jsonp_context pf ev" m'] by blast
  have c6: "gave_up 5000 (jsonp_exchange pf env ev)
       \<and> generateSmartFallback pf (jsonp_question ev) (jsonp_context pf ev) (jsonp_has_data ev)
             (jsonp_row_count pf ev) = Inr a \<longrightarrow>
      p_answer (snd (body (fst (chat_jsonp pf env ev)))) = Some a
      \<and> str_includes a (jsonp_question ev)"
  proof (intro impI, elim conjE)
    assume g: "gave_up 5000 (jsonp_exchange pf env ev)"
      and r: "generateSmartFallback pf (jsonp_question ev) (jsonp_context pf ev) (jsonp_has_data ev)
             (jsonp_row_count pf ev) = Inr a"
    from chat_jsonp_fallback [OF g r] generateSmartFallback_Inr [OF r]
    show "p_answer (snd (body (fst (chat_jsonp pf env ev)))) = Some a
      \<and> str_includes a (jsonp_question ev)"
      by (intro conjI) simp_all
  qed
  from c1 c2 c3 c4 c5 c6 show ?thesis by (intro conjI)
qed

text \<open>
  Claim C3. The answer of the main chat endpoint is never the object that the callback of
  \<open>globalTimeout\<close> returns. With 3000 ms gone before the race is armed and a backend that
  never replies, the timer fires (the race ends 9000 ms after the start), and the handler
  answers with the rule-based fallback, method \<open>FALLBACK\<close>.
\<close>

theorem globalTimeout_answer_discarded:
  "response (chat pf env ev) \<noteq> globalTimeout_callback
   \<and> timeout_fired (chat plain_platform slow_start bare_question)
   \<and> response (chat plain_platform slow_start bare_question)
       = \<lparr>statusCode = 200,
          body = Some \<lparr>p_error = Missing,
                       p_answer = Some ([55358, 56598] @ S '' **ASSISTENTE BI ATIVO** ''
                                        @ [9888, 65039] @ S '' Nenhum dado carregado no visual''),
                       p_method = S ''FALLBACK''\<rparr>\<rparr>"
proof -
  have m: "p_method b \<noteq> S ''FAST_FALLBACK''"
    if "response (chat pf env ev) = \<lparr>statusCode = c, body = Some b\<rparr>" for c b
    using that
    by (auto simp: chat_def Let_def recovery_def split: if_splits sum.splits)
      (simp_all add: S_def)
  have a: "response (chat pf env ev) \<noteq> globalTimeout_callback"
    using m [of 200] unfolding globalTimeout_callback_def by fastforce
  have b: "bare_question = asks (S ''oi'')" by (simp add: bare_question_def asks_def)
  have q: "chat_question plain_platform (asks (S ''oi'')) = Inr (S ''oi'')"
    by (simp add: chat_question_def param_or_def asks_params or_default_def plain_platform_def after_def)
      (simp add: S_def)
  have ne: "S ''oi'' \<noteq> []" by (simp add: S_def)
  note c = slow_start_chat(2) [OF q ne]
  have d: "response (chat plain_platform slow_start (asks (S ''oi'')))
       = \<lparr>statusCode = 200,
          body = Some \<lparr>p_error = Missing,
                       p_answer = Some ([55358, 56598] @ S '' **ASSISTENTE BI ATIVO** ''
                                        @ [9888, 65039] @ S '' Nenhum dado carregado no visual''),
                       p_method = S ''FALLBACK''\<rparr>\<rparr>"
    unfolding slow_start_chat(3) [OF q ne] general_answer no_data_general [OF no_rows(1)] by simp
  from a c d show ?thesis unfolding b by (intro conjI)
qed


lemma asks_long_jsonp:
  "jsonp_question (asks long_question) = long_question"
  "jsonp_context plain_platform (asks long_question) = JArr []"
  "\<not> jsonp_has_data (asks long_question)"
proof -
  show "jsonp_question (asks long_question) = long_question"
    using long_question_facts(4) by (simp add: jsonp_question_def param_or_def asks_params or_default_def)
  show "jsonp_context plain_platform (asks long_question) = JArr []"
    by (simp add: jsonp_context_def param_or_def asks_params or_default_def plain_platform_def after_def)
  show "\<not> jsonp_has_data (asks long_question)"
    by (simp add: jsonp_has_data_def asks_params)
qed

text \<open>
  The amended claim at the question of 506 code units, with a backend that never replies.
\<close>

theorem main_endpoint_cuts_question_witness:
  "chat_question plain_platform (asks long_question) = Inr (take 500 long_question)
   \<and> chat plain_platform slow_start (asks long_question)
       = chat plain_platform slow_start (asks (take 500 long_question))
   \<and> sent (chat plain_platform slow_start (asks long_question)) \<noteq> []
   \<and> str_includes (hd (sent (chat plain_platform slow_start (asks long_question)))) (take 500 long_question)
   \<and> snd (chat_jsonp plain_platform slow_start (asks long_question)) \<noteq> []
   \<and> str_includes (hd (snd (chat_jsonp plain_platform slow_start (asks long_question)))) long_question
   \<and> str_includes
        (the (p_answer (snd (body (fst (chat_jsonp plain_platform slow_start (asks long_question)))))))
        long_question"
proof -
  let ?m = "S ''Pergunta r'' @ [225] @ S ''pida: '' @ [34] @ take 500 long_question @ [34]
      @ S '' - Sem dados do Power BI.''"
  let ?m' = "S ''RESPOSTA R'' @ [193] @ S ''PIDA: '' @ [34] @ long_question @ [34]
      @ S '' - Sem dados Power BI.''"
  have ne: "take 500 long_question \<noteq> []" by (simp add: long_question_facts(2))
  have dec: "decodeURIComponent plain_platform s = (if 37 \<in> set s then Inl (S ''URI malformed'') else Inr s)" for s
    by (simp add: plain_platform_def)
  have n: "37 \<notin> set (take 500 long_question)"
    using long_question_facts(3) by (blast dest: in_set_takeD)
  have d: "decodeURIComponent plain_platform (param_or (asks long_question) (S ''question'') []) = Inr long_question"
    using long_question_facts(3,4) by (simp add: param_or_def asks_params or_default_def dec)
  have d': "decodeURIComponent plain_platform (param_or (asks (take 500 long_question)) (S ''question'') [])
      = Inr (take 500 long_question)"
    using n ne by (simp add: param_or_def asks_params or_default_def dec)
  have s: "sent (chat plain_platform slow_start (asks long_question)) = [?m]"
    by (rule slow_start_chat(1) [OF asks_long_chat_question(1) ne])
  have p: "prepareQuickMessage plain_platform long_question (JArr []) = Inr ?m'"
    by (simp add: prepareQuickMessage_def elements_def)
  have x: "jsonp_exchange plain_platform slow_start (asks long_question)
      = \<lparr>settled_at = 6500, settled = Inl (S ''JSONP Polling timeout''), forwarded = [?m']\<rparr>"
    by (simp add: jsonp_exchange_def asks_long_jsonp mute_fast [OF p])
  have s': "snd (chat_jsonp plain_platform slow_start (asks long_question)) = [?m']"
    by (simp add: chat_jsonp_def Let_def x)
  have g: "gave_up 5000 (jsonp_exchange plain_platform slow_start (asks long_question))"
    by (simp add: gave_up_def x)
  obtain a where a: "generateSmartFallback plain_platform (jsonp_question (asks long_question))
      (jsonp_context plain_platform (asks long_question)) (jsonp_has_data (asks long_question))
      (jsonp_row_count plain_platform (asks long_question)) = Inr a"
    using generateSmartFallback_Inl [of plain_platform "jsonp_question (asks long_question)"
        "jsonp_context plain_platform (asks long_question)" "jsonp_has_data (asks long_question)"
        "jsonp_row_count plain_platform (asks long_question)"] asks_long_jsonp(3)
    by (cases "generateSmartFallback plain_platform (jsonp_question (asks long_question))
      (jsonp_context plain_platform (asks long_question)) (jsonp_has_data (asks long_question))
      (jsonp_row_count plain_platform (asks long_question))") auto
  note t = main_endpoint_cuts_question [of plain_platform "asks long_question" long_question
      "asks (take 500 long_question)" "take 500 long_question" slow_start "take 500 long_question"
      ?m ?m' a]
  from t d have 1: "chat_question plain_platform (asks long_question) = Inr (take 500 long_question)"
    by blast
  from t d d' have 2: "chat plain_platform slow_start (asks long_question)
       = chat plain_platform slow_start (asks (take 500 long_question))"
    by (simp add: asks_method asks_params)
  from s have 3: "sent (chat plain_platform slow_start (asks long_question)) \<noteq> []" by simp
  from t 1 s have 4: "str_includes (hd (sent (chat plain_platform slow_start (asks long_question))))
      (take 500 long_question)"
    by simp
  from s' have 5: "snd (chat_jsonp plain_platform slow_start (asks long_question)) \<noteq> []" by simp
  from t s' have 6: "str_includes (hd (snd (chat_jsonp plain_platform slow_start (asks long_question))))
      long_question"
    by (simp add: asks_long_jsonp)
  from t g a have 7: "str_includes
        (the (p_answer (snd (body (fst (chat_jsonp plain_platform slow_start (asks long_question)))))))
        long_question"
    by (simp add: asks_long_jsonp)
  from 1 2 3 4 5 6 7 show ?thesis by (intro conjI)
qed
















lemma chat_no_question:
  assumes "httpMethod ev \<noteq> S ''OPTIONS''"
  shows "chat_question pf ev = Inl m \<Longrightarrow> response (chat pf env ev) = recovery m"
    and "chat_question pf ev = Inr [] \<Longrightarrow>
      response (chat pf env ev)
        = recovery (S ''Par'' @ [226] @ S ''metro '' @ [39] @ S ''question'' @ [39] @ S '' ''
                    @ [233] @ S '' obrigat'' @ [243] @ S ''rio'')"
  using assms by (simp_all add: chat_def)

























end
